theory Spec2Isabelle
  imports Main "HOL-Library.Word" "HOL-Library.Sublist" "HOL-Library.Multiset"
begin

section \<open>The query-completion engine of chaosctl (pkg/chaosctl/common/ctrlclient.go)\<close>

text \<open>
  A shallow embedding of \<^verbatim>\<open>ctrlclient.go\<close>: the completion context, the argument lister
  \<^verbatim>\<open>ListArguments\<close> with its response walker \<^verbatim>\<open>listArguments\<close>, the recursive
  \<^verbatim>\<open>completeQuery\<close> and the combination generator \<^verbatim>\<open>fullPermutation\<close>.

  Go values become HOL values; an \<^verbatim>\<open>error\<close> result and a run-time panic are the two
  kinds of \<open>failure\<close>, returned on the left of a sum. A Go slice is kept with the
  unused cells of its backing array, because \<^verbatim>\<open>ListArguments\<close> writes through a
  re-sliced argument. Code the file calls but does not contain (the schema of
  \<^verbatim>\<open>schema.go\<close>, the GraphQL client, the pluralize, strcase, combination and
  permutation packages, the growth policy of \<^verbatim>\<open>append\<close>) is a parameter of the
  model, or is written out from the specification where a definition says so.
\<close>

subsection \<open>Schema model\<close>

text \<open>
  Modelled from the spec: the declarations of \<^verbatim>\<open>Type\<close>, \<^verbatim>\<open>Field\<close>, \<^verbatim>\<open>Argument\<close>
  and of the kind constants are in \<^verbatim>\<open>schema.go\<close>. The specification gives a type a
  name, a kind among Scalar, Enum, Object, List and NonNull and an ordered list of
  fields; a field a name, a type reference and an ordered list of arguments; an
  argument a name and a type reference. A type reference is a named type under List
  and NonNull modifiers.
\<close>

datatype Kind = ScalarKind | ObjectKind | EnumKind | ListKind | NonNullKind

datatype TypeRef = Named string | ListOf TypeRef | NonNullOf TypeRef

record Argument =
  argName :: string
  argType :: TypeRef

record Field =
  fieldName :: string
  fieldType :: TypeRef
  fieldArgs :: "Argument list"

record Type =
  typeName :: string
  typeKind :: Kind
  typeFields :: "Field list"

text \<open>
  Modelled from the spec: a query node (\<^verbatim>\<open>Query\<close> of \<^verbatim>\<open>schema.go\<close>) has a name, an
  optional argument value and its child nodes by field name, in selection order.
\<close>

datatype Query = Query (queryName: string) (queryArgument: "string option")
  (queryFields: "(string \<times> Query) list")

subsection \<open>Decoded responses\<close>

text \<open>
  What \<^verbatim>\<open>listArguments\<close> tells apart by reflection: a pointer (nil or not), a struct
  with its fields by name, a slice, the four GraphQL scalars of its type switch, and
  every other value. \<open>GInt\<close> is \<^verbatim>\<open>graphql.Int\<close>, a 32-bit integer. \<open>GFloat\<close> carries
  the text that \<^verbatim>\<open>fmt.Sprintf("%f", v)\<close> prints for the float.
\<close>

datatype Value =
    Ptr Value
  | NilPtr
  | Struct "(string \<times> Value) list"
  | Slice "Value list"
  | GString string
  | GBoolean bool
  | GInt "32 word"
  | GFloat string
  | Other

subsection \<open>Errors and panics\<close>

text \<open>
  The errors this file makes with \<^verbatim>\<open>fmt.Errorf\<close> are named after their message; the
  errors of absent code are the specification's \<open>SchemaError\<close> and \<open>ExecutionError\<close>
  with a message. \<open>TypeNotSupported\<close> is the specification's UnsupportedTypeError, the
  three errors of \<^verbatim>\<open>listArguments\<close> are its ResponseShapeError.
\<close>

datatype error =
    SchemaError string
  | ExecutionError string
  | CannotFindField string Value
  | ResourceKindNotSupported Value
  | UnsupportedValue Value
  | TypeNotSupported Type

datatype panic =
    SliceBoundsOutOfRange
  | IndexOutOfRange
  | NilPointerDereference
  | ReflectZeroValue

datatype failure = Failed error | Panicked panic

subsection \<open>Go slices of strings\<close>

text \<open>
  A slice as seen from its first element: \<open>elts\<close> are the \<^verbatim>\<open>len\<close> visible elements,
  \<open>spare\<close> the cells of the backing array between \<^verbatim>\<open>len\<close> and \<^verbatim>\<open>cap\<close>.
  \<^verbatim>\<open>append\<close> writes into the first spare cell when there is one, and the result then
  shares the backing array of its argument; otherwise it copies into a new array, whose
  capacity the Go run time chooses (\<open>grow\<close>, from the old capacity).
\<close>

record slice =
  elts :: "string list"
  spare :: "string list"

definition backing :: "slice \<Rightarrow> string list" where
  "backing s = elts s @ spare s"

definition reslice :: "nat \<Rightarrow> string list \<Rightarrow> slice" where
  "reslice n a = \<lparr>elts = take n a, spare = drop n a\<rparr>"

definition literal :: "string list \<Rightarrow> slice" where
  "literal xs = \<lparr>elts = xs, spare = []\<rparr>"

definition append_slice :: "(nat \<Rightarrow> nat) \<Rightarrow> slice \<Rightarrow> string \<Rightarrow> slice" where
  "append_slice grow s x =
     (case spare s of
        _ # rest \<Rightarrow> \<lparr>elts = elts s @ [x], spare = rest\<rparr>
      | [] \<Rightarrow> \<lparr>elts = elts s @ [x],
               spare = replicate (grow (length (elts s)) - (length (elts s) + 1)) ''''\<rparr>)"

text \<open>
  The packages and the run time the file relies on: \<^verbatim>\<open>pluralize.Client.Plural\<close>,
  \<^verbatim>\<open>strcase.ToCamel\<close> and the capacity a growing \<^verbatim>\<open>append\<close> allocates.
\<close>

record Runtime =
  Plural :: "string \<Rightarrow> string"
  ToCamel :: "string \<Rightarrow> string"
  growslice :: "nat \<Rightarrow> nat"

subsection \<open>AutoCompleteContext\<close>

text \<open>
  \<^verbatim>\<open>maxRecurLevel\<close> is a Go \<^verbatim>\<open>int\<close> (64 bits). \<^verbatim>\<open>visitedTypes\<close> is a
  \<^verbatim>\<open>map[string]bool\<close> in which only \<^verbatim>\<open>true\<close> is ever stored, that is the set of its
  keys.
\<close>

definition NamespaceKey :: string where
  "NamespaceKey = ''namespace''"

definition NamespaceType :: string where
  "NamespaceType = ''Namespace''"

record AutoCompleteContext =
  maxRecurLevel :: "64 word"
  visitedTypes :: "string set"
  completeLeaves :: bool
  query :: slice

definition NewAutoCompleteContext :: "string \<Rightarrow> 64 word \<Rightarrow> bool \<Rightarrow> AutoCompleteContext" where
  "NewAutoCompleteContext namespace level leaves =
     \<lparr>maxRecurLevel = level, visitedTypes = {}, completeLeaves = leaves,
      query = literal [NamespaceKey, namespace]\<rparr>"

definition IsComplete :: "AutoCompleteContext \<Rightarrow> bool" where
  "IsComplete ctx = (maxRecurLevel ctx = 0)"

definition Visited :: "AutoCompleteContext \<Rightarrow> string \<Rightarrow> bool" where
  "Visited ctx name = (name \<in> visitedTypes ctx)"

definition Next :: "Runtime \<Rightarrow> AutoCompleteContext \<Rightarrow> string \<Rightarrow> string \<Rightarrow> string \<Rightarrow> AutoCompleteContext" where
  "Next rt ctx typename fieldname arg =
     (let types = insert typename (visitedTypes ctx);
          query0 = foldl (append_slice (growslice rt)) (literal []) (elts (query ctx));
          query1 = append_slice (growslice rt) query0 fieldname;
          query2 = (if arg \<noteq> '''' then append_slice (growslice rt) query1 arg else query1)
      in \<lparr>maxRecurLevel = maxRecurLevel ctx - 1, visitedTypes = types,
          completeLeaves = completeLeaves ctx, query = query2\<rparr>)"

subsection \<open>The combination generator\<close>

text \<open>
  Modelled from the spec: the iterators of the packages
  \<^verbatim>\<open>gitchander/permutation/combination\<close> and \<^verbatim>\<open>gitchander/permutation\<close>.
  \<open>comb_New n k\<close> lists the index vectors that \<^verbatim>\<open>c.Indexes()\<close> holds after each
  successful \<^verbatim>\<open>c.Next()\<close>: every choice of \<open>k\<close> of the indexes \<open>0..<n\<close>, increasing,
  once. \<open>prmt_New xs\<close> lists the contents of the permuted slice after each successful
  \<^verbatim>\<open>p.Next()\<close>: every ordering of the positions of \<open>xs\<close>, once, for each combination
  anew. The order inside each enumeration is this model's choice; the statements below
  do not depend on it.
\<close>

fun combinations_of :: "nat \<Rightarrow> 'a list \<Rightarrow> 'a list list" where
  "combinations_of 0 xs = [[]]"
| "combinations_of (Suc k) [] = []"
| "combinations_of (Suc k) (x # xs) =
     map ((#) x) (combinations_of k xs) @ combinations_of (Suc k) xs"

definition comb_New :: "nat \<Rightarrow> nat \<Rightarrow> nat list list" where
  "comb_New n k = combinations_of k [0..<n]"

fun interleave :: "'a \<Rightarrow> 'a list \<Rightarrow> 'a list list" where
  "interleave x [] = [[x]]"
| "interleave x (y # ys) = (x # y # ys) # map ((#) y) (interleave x ys)"

fun prmt_New :: "'a list \<Rightarrow> 'a list list" where
  "prmt_New [] = [[]]"
| "prmt_New (x # xs) = concat (map (interleave x) (prmt_New xs))"

text \<open>
  \<^verbatim>\<open>for i := range strs[1:]\<close> panics on an empty \<^verbatim>\<open>strs\<close> (slice bounds out of range
  [1:0]); otherwise \<open>i\<close> runs over \<open>0..<len(strs)-1\<close> and the subset size is \<open>i + 1\<close>.
\<close>

definition fullPermutation :: "string list \<Rightarrow> failure + string list list" where
  "fullPermutation strs =
     (if strs = [] then Inl (Panicked SliceBoundsOutOfRange)
      else Inr (concat (map
        (\<lambda>i. let n = length strs; k = i + 1
             in concat (map
                  (\<lambda>indexes. prmt_New (map (\<lambda>setIndex. strs ! setIndex) indexes))
                  (comb_New n k)))
        [0..<length (tl strs)])))"

subsection \<open>The client\<close>

text \<open>
  \<^verbatim>\<open>CtrlClient\<close> holds the schema and the GraphQL client. Their methods are not in this
  file; the model takes them as the fields of the client: \<^verbatim>\<open>Schema.QueryType.Name\<close>,
  \<^verbatim>\<open>Schema.MustGetType\<close>, \<^verbatim>\<open>Schema.resolve\<close>, \<^verbatim>\<open>Schema.ParseQuery\<close>,
  \<^verbatim>\<open>Schema.Reflect\<close> (on the super query, with fresh variables) and
  \<^verbatim>\<open>Client.Query\<close>, which fills a new value of the reflected type (\<open>'sh\<close>) from the
  answer of the service. The service is a function: it answers the same request the same
  way during one call.
\<close>

record 'sh CtrlClient =
  QueryTypeName :: string
  MustGetType :: "string \<Rightarrow> error + Type"
  resolve :: "TypeRef \<Rightarrow> error + Type"
  ParseQuery :: "string list \<Rightarrow> Type \<Rightarrow> error + Query"
  Reflect :: "Query \<Rightarrow> error + 'sh"
  ClientQuery :: "'sh \<Rightarrow> error + Value"

definition GetQueryType :: "'sh CtrlClient \<Rightarrow> error + Type" where
  "GetQueryType c = MustGetType c (QueryTypeName c)"

subsection \<open>listArguments\<close>

fun decimal :: "nat \<Rightarrow> string" where
  "decimal n =
     (if n < 10 then [''0123456789'' ! n]
      else decimal (n div 10) @ [''0123456789'' ! (n mod 10)])"

declare decimal.simps [simp del]

definition formatInt :: "int \<Rightarrow> string" where
  "formatInt i = (if i < 0 then CHR ''-'' # decimal (nat (- i)) else decimal (nat i))"

definition FormatBool :: "bool \<Rightarrow> string" where
  "FormatBool b = (if b then ''true'' else ''false'')"

text \<open>The type switch of \<^verbatim>\<open>listArguments\<close>: the string form of a scalar.\<close>

definition scalarValue :: "Value \<Rightarrow> failure + string" where
  "scalarValue object =
     (case object of
        GString v \<Rightarrow> Inr v
      | GBoolean v \<Rightarrow> Inr (FormatBool v)
      | GInt v \<Rightarrow> Inr (formatInt (sint v))
      | GFloat v \<Rightarrow> Inr v
      | _ \<Rightarrow> Inl (Failed (UnsupportedValue object)))"

text \<open>
  The \<^verbatim>\<open>default\<close> branch of the kind switch and what follows it: a value that is no
  pointer, struct or slice is refused when a resource is left to select, and is
  otherwise returned if its string form starts with \<^verbatim>\<open>startWith\<close>.
\<close>

definition scalarArguments :: "Value \<Rightarrow> Query option \<Rightarrow> string \<Rightarrow> failure + string list" where
  "scalarArguments object resource startWith =
     (if resource \<noteq> None then Inl (Failed (ResourceKindNotSupported object))
      else case scalarValue object of
             Inl err \<Rightarrow> Inl err
           | Inr val \<Rightarrow> Inr (if prefix startWith val then [val] else []))"

text \<open>
  The loop of the slice case over the results of the elements: the first failure is
  returned, otherwise the arguments are appended in order.
\<close>

fun appendArguments :: "(failure + string list) list \<Rightarrow> string list \<Rightarrow> failure + string list" where
  "appendArguments [] slice' = Inr slice'"
| "appendArguments (Inl err # rest) slice' = Inl err"
| "appendArguments (Inr arguments # rest) slice' = appendArguments rest (slice' @ arguments)"

text \<open>
  The first child of a query node. \<^verbatim>\<open>for _, f := range resource.Fields\<close> returns in its
  first iteration; a node built from a path has at most one child, so the order of
  iteration over the Go map does not matter there.
\<close>

definition firstField :: "Query \<Rightarrow> Query option" where
  "firstField resource = (case queryFields resource of [] \<Rightarrow> None | (_, f) # _ \<Rightarrow> Some f)"

lemma map_of_size:
  "map_of fs k = Some (v :: Value) \<Longrightarrow> size v < Suc (size_list (size_prod (\<lambda>_. 0) size) fs)"
  by (induction fs) (auto split: if_splits)

function (sequential) listArguments :: "Runtime \<Rightarrow> Value \<Rightarrow> Query option \<Rightarrow> string \<Rightarrow> failure + string list" where
  "listArguments rt NilPtr resource startWith = Inl (Panicked ReflectZeroValue)"
| "listArguments rt (Ptr object) resource startWith = listArguments rt object resource startWith"
| "listArguments rt (Struct fs) None startWith = Inl (Panicked NilPointerDereference)"
| "listArguments rt (Struct fs) (Some resource) startWith =
     (case map_of fs (ToCamel rt (queryName resource)) of
        None \<Rightarrow> Inl (Failed (CannotFindField (queryName resource) (Struct fs)))
      | Some field \<Rightarrow> listArguments rt field (firstField resource) startWith)"
| "listArguments rt (Slice vs) resource startWith =
     appendArguments (map (\<lambda>v. listArguments rt v resource startWith) vs) []"
| "listArguments rt object resource startWith = scalarArguments object resource startWith"
  by pat_completeness auto
termination
  by (relation "measure (\<lambda>(rt, object, resource, startWith). size object)")
    (auto dest: map_of_size simp: less_Suc_eq_le size_list_estimation')

text \<open>
  The specification's words for \<^verbatim>\<open>ExtractLeafValues\<close>: walk the decoded response along
  the query, through pointers and into every element of a collection, and take the
  string form of each scalar leaf, in source order.
\<close>

function (sequential) leafValues :: "Runtime \<Rightarrow> Value \<Rightarrow> Query option \<Rightarrow> string list" where
  "leafValues rt (Ptr object) q = leafValues rt object q"
| "leafValues rt (Struct fs) (Some q) =
     (case map_of fs (ToCamel rt (queryName q)) of
        None \<Rightarrow> []
      | Some field \<Rightarrow> leafValues rt field (firstField q))"
| "leafValues rt (Slice vs) q = concat (map (\<lambda>v. leafValues rt v q) vs)"
| "leafValues rt object q = (case scalarValue object of Inl _ \<Rightarrow> [] | Inr val \<Rightarrow> [val])"
  by pat_completeness auto
termination
  by (relation "measure (\<lambda>(rt, object, q). size object)")
    (auto dest: map_of_size simp: less_Suc_eq_le size_list_estimation')

definition ExtractLeafValues_spec :: "Runtime \<Rightarrow> Value \<Rightarrow> Query option \<Rightarrow> string \<Rightarrow> string list" where
  "ExtractLeafValues_spec rt response q pre = filter (prefix pre) (leafValues rt response q)"

subsection \<open>ListArguments\<close>

text \<open>
  The result comes with the backing array of \<^verbatim>\<open>queryStr\<close> as the call leaves it.
  \<^verbatim>\<open>listQuery := queryStr[:len(queryStr)-1]\<close> shares that array: the plural is written
  into its cell \<open>len - 2\<close>, and \<^verbatim>\<open>append\<close> finds the cell \<open>len - 1\<close> spare and writes
  \<^verbatim>\<open>argumentName\<close> there, so the \<^verbatim>\<open>queryStr[len(queryStr)-1]\<close> read at the end is read
  from the array as written.
\<close>

definition ListArguments ::
  "Runtime \<Rightarrow> 'sh CtrlClient \<Rightarrow> slice \<Rightarrow> string \<Rightarrow> (failure + string list) \<times> string list" where
  "ListArguments rt c queryStr argumentName =
     (case GetQueryType c of
        Inl err \<Rightarrow> (Inl (Failed err), backing queryStr)
      | Inr queryType \<Rightarrow>
          let n = length (elts queryStr) in
          if n = 0 then (Inl (Panicked SliceBoundsOutOfRange), backing queryStr)
          else
            let listQuery0 = reslice (n - 1) (backing queryStr) in
            if n - 1 = 0 then (Inl (Panicked IndexOutOfRange), backing queryStr)
            else
              let listQuery1 = listQuery0
                    \<lparr>elts := (elts listQuery0)[n - 2 := Plural rt (elts listQuery0 ! (n - 2))]\<rparr>;
                  listQuery = append_slice (growslice rt) listQuery1 argumentName;
                  array = backing listQuery
              in case ParseQuery c (elts listQuery) queryType of
                   Inl err \<Rightarrow> (Inl (Failed err), array)
                 | Inr query' \<Rightarrow>
                     let superQuery = Query ''query'' None [(''namespace'', query')] in
                     (case Reflect c superQuery of
                        Inl err \<Rightarrow> (Inl (Failed err), array)
                      | Inr queryStruct \<Rightarrow>
                          (case ClientQuery c queryStruct of
                             Inl err \<Rightarrow> (Inl (Failed err), array)
                           | Inr queryValue \<Rightarrow>
                               (listArguments rt queryValue (Some query') (array ! (n - 1)),
                                array))))"

subsection \<open>completeQuery\<close>

fun Join :: "string list \<Rightarrow> string \<Rightarrow> string" where
  "Join [] sep = ''''"
| "Join [x] sep = x"
| "Join (x # y # ys) sep = x @ sep @ Join (y # ys) sep"

type_synonym completion = "(failure + string list) option"

text \<open>
  The body of \<^verbatim>\<open>completeQuery\<close> with the recursive call as the parameter \<open>rec\<close>; \<open>None\<close>
  is a call that has not returned. \<open>argsLoop\<close> is the loop over the listed argument
  values, \<open>fieldsLoop\<close> the loop over \<^verbatim>\<open>root.Fields\<close> with the slices \<^verbatim>\<open>trunks\<close> and
  \<^verbatim>\<open>leaves\<close>. A result is \<^verbatim>\<open>nil\<close> exactly when it is empty: every result is
  \<^verbatim>\<open>nil\<close> or built by appending to \<^verbatim>\<open>nil\<close>. The context is passed along the loop
  because listing the arguments of a field can write into \<^verbatim>\<open>ctx.query\<close>. The switch
  on the kind has no case for objects: every kind it does not name reaches the loop.
\<close>

fun argsLoop ::
  "(AutoCompleteContext \<Rightarrow> Type \<Rightarrow> completion) \<Rightarrow> Runtime \<Rightarrow> AutoCompleteContext \<Rightarrow> Field \<Rightarrow>
   Type \<Rightarrow> string list \<Rightarrow> string list \<Rightarrow> completion" where
  "argsLoop rec rt ctx field subType [] trunks = Some (Inr trunks)"
| "argsLoop rec rt ctx field subType (arg # args) trunks =
     (case rec (Next rt ctx (typeName subType) (fieldName field) arg) subType of
        None \<Rightarrow> None
      | Some (Inl err) \<Rightarrow> Some (Inl err)
      | Some (Inr subQueries) \<Rightarrow>
          argsLoop rec rt ctx field subType args
            (trunks @ map (\<lambda>subQuery. Join [fieldName field, arg, subQuery] ''/'') subQueries))"

text \<open>
  The call \<^verbatim>\<open>c.ListArguments(append(ctx.query, field.Name), field.Args[0].Name)\<close> and
  the context it leaves: when \<^verbatim>\<open>ctx.query\<close> has a spare cell the appended slice shares
  its array, and \<^verbatim>\<open>ctx.query\<close> is afterwards the first \<^verbatim>\<open>len\<close> cells of that array
  as \<^verbatim>\<open>ListArguments\<close> wrote it.
\<close>

definition listFieldArguments ::
  "Runtime \<Rightarrow> 'sh CtrlClient \<Rightarrow> AutoCompleteContext \<Rightarrow> string \<Rightarrow> string \<Rightarrow>
   (failure + string list) \<times> AutoCompleteContext" where
  "listFieldArguments rt c ctx fieldname argumentName =
     (let queryStr = append_slice (growslice rt) (query ctx) fieldname;
          listed = ListArguments rt c queryStr argumentName
      in (fst listed,
          if spare (query ctx) \<noteq> []
          then ctx\<lparr>query := reslice (length (elts (query ctx))) (snd listed)\<rparr>
          else ctx))"

fun fieldsLoop ::
  "(AutoCompleteContext \<Rightarrow> Type \<Rightarrow> completion) \<Rightarrow> Runtime \<Rightarrow> 'sh CtrlClient \<Rightarrow>
   Field list \<Rightarrow> AutoCompleteContext \<Rightarrow> string list \<Rightarrow> string list \<Rightarrow>
   (failure + string list \<times> string list) option" where
  "fieldsLoop rec rt c [] ctx trunks leaves = Some (Inr (trunks, leaves))"
| "fieldsLoop rec rt c (field # rest) ctx trunks leaves =
     (case resolve c (fieldType field) of
        Inl err \<Rightarrow> Some (Inl (Failed err))
      | Inr subType \<Rightarrow>
          if Visited ctx (typeName subType) then fieldsLoop rec rt c rest ctx trunks leaves
          else
            (case fieldArgs field of
               [] \<Rightarrow>
                 (case rec (Next rt ctx (typeName subType) (fieldName field) '''') subType of
                    None \<Rightarrow> None
                  | Some (Inl err) \<Rightarrow> Some (Inl err)
                  | Some (Inr subQueries) \<Rightarrow>
                      if subQueries = []
                      then fieldsLoop rec rt c rest ctx trunks (leaves @ [fieldName field])
                      else fieldsLoop rec rt c rest ctx
                             (trunks @ map (\<lambda>subQuery. Join [fieldName field, subQuery] ''/'')
                                subQueries)
                             leaves)
             | arg0 # _ \<Rightarrow>
                 (case listFieldArguments rt c ctx (fieldName field) (argName arg0) of
                    (Inl err, ctx') \<Rightarrow> Some (Inl err)
                  | (Inr args, ctx') \<Rightarrow>
                      (case argsLoop rec rt ctx' field subType args trunks of
                         None \<Rightarrow> None
                       | Some (Inl err) \<Rightarrow> Some (Inl err)
                       | Some (Inr trunks') \<Rightarrow> fieldsLoop rec rt c rest ctx' trunks' leaves))))"

definition completeQueryBody ::
  "(AutoCompleteContext \<Rightarrow> Type \<Rightarrow> completion) \<Rightarrow> Runtime \<Rightarrow> 'sh CtrlClient \<Rightarrow>
   AutoCompleteContext \<Rightarrow> Type \<Rightarrow> completion" where
  "completeQueryBody rec rt c ctx root =
     (if IsComplete ctx then Some (Inr [])
      else case typeKind root of
        ScalarKind \<Rightarrow> Some (Inr [])
      | EnumKind \<Rightarrow> Some (Inr [])
      | ListKind \<Rightarrow> Some (Inl (Failed (TypeNotSupported root)))
      | NonNullKind \<Rightarrow> Some (Inl (Failed (TypeNotSupported root)))
      | _ \<Rightarrow>
          (case fieldsLoop rec rt c (typeFields root) ctx [] [] of
             None \<Rightarrow> None
           | Some (Inl err) \<Rightarrow> Some (Inl err)
           | Some (Inr (trunks, leaves)) \<Rightarrow>
               if \<not> completeLeaves ctx then Some (Inr (leaves @ trunks))
               else
                 (case fullPermutation leaves of
                    Inl err \<Rightarrow> Some (Inl err)
                  | Inr leafPrmts \<Rightarrow>
                      Some (Inr (map (\<lambda>leafPrmt. Join leafPrmt '','') leafPrmts @ trunks)))))"

text \<open>
  \<^verbatim>\<open>completeQuery\<close> itself, with fuel for the depth of nested calls: \<open>completeQuery n\<close> is
  \<open>None\<close> when the call needs more than \<open>n\<close> nested invocations. That enough fuel
  always exists is a theorem below.
\<close>

fun completeQuery ::
  "nat \<Rightarrow> Runtime \<Rightarrow> 'sh CtrlClient \<Rightarrow> AutoCompleteContext \<Rightarrow> Type \<Rightarrow> completion" where
  "completeQuery 0 rt c ctx root = None"
| "completeQuery (Suc fuel) rt c ctx root =
     completeQueryBody (completeQuery fuel rt c) rt c ctx root"

definition CompleteQuery ::
  "nat \<Rightarrow> Runtime \<Rightarrow> 'sh CtrlClient \<Rightarrow> string \<Rightarrow> bool \<Rightarrow> completion" where
  "CompleteQuery fuel rt c namespace leaves =
     (case MustGetType c NamespaceType of
        Inl err \<Rightarrow> Some (Inl (Failed err))
      | Inr namespaceType \<Rightarrow>
          completeQuery fuel rt c (NewAutoCompleteContext namespace 6 leaves) namespaceType)"

text \<open>
  The index sequences behind \<open>fullPermutation\<close>: \<open>orderings n k\<close> are the orderings of
  the combinations of size \<open>k\<close>, \<open>all_orderings n\<close> those of every size the loop visits.
\<close>

definition orderings :: "nat \<Rightarrow> nat \<Rightarrow> nat list list" where
  "orderings n k = concat (map prmt_New (comb_New n k))"

definition all_orderings :: "nat \<Rightarrow> nat list list" where
  "all_orderings n = concat (map (\<lambda>i. orderings n (i + 1)) [0..<n - 1])"

subsection \<open>Notions the statements use\<close>

text \<open>
  \<open>descends ctx ctx' subType\<close>: the context \<open>ctx'\<close> enters \<open>subType\<close> one level below
  \<open>ctx\<close>. \<open>descending ctx rec\<close> is the recursive call \<open>rec\<close> refusing every call that
  does not descend from \<open>ctx\<close>. \<open>pathFrom ctx path\<close>: each context of the path descends
  from the one before it, the first from \<open>ctx\<close>; \<open>lastContext\<close> is where the path ends.
\<close>

definition descends :: "AutoCompleteContext \<Rightarrow> AutoCompleteContext \<Rightarrow> Type \<Rightarrow> bool" where
  "descends ctx ctx' subType \<longleftrightarrow>
     typeName subType \<notin> visitedTypes ctx \<and>
     visitedTypes ctx' = insert (typeName subType) (visitedTypes ctx) \<and>
     maxRecurLevel ctx' = maxRecurLevel ctx - 1 \<and>
     completeLeaves ctx' = completeLeaves ctx"

definition descending ::
  "AutoCompleteContext \<Rightarrow> (AutoCompleteContext \<Rightarrow> Type \<Rightarrow> completion) \<Rightarrow>
   AutoCompleteContext \<Rightarrow> Type \<Rightarrow> completion" where
  "descending ctx rec ctx' subType = (if descends ctx ctx' subType then rec ctx' subType else None)"

fun pathFrom :: "AutoCompleteContext \<Rightarrow> (AutoCompleteContext \<times> Type) list \<Rightarrow> bool" where
  "pathFrom ctx [] = True"
| "pathFrom ctx ((ctx', subType) # path) = (descends ctx ctx' subType \<and> pathFrom ctx' path)"

fun lastContext :: "AutoCompleteContext \<Rightarrow> (AutoCompleteContext \<times> Type) list \<Rightarrow> AutoCompleteContext" where
  "lastContext ctx [] = ctx"
| "lastContext ctx ((ctx', subType) # path) = lastContext ctx' path"

definition entered :: "(AutoCompleteContext \<times> Type) list \<Rightarrow> string list" where
  "entered path = map (\<lambda>step. typeName (snd step)) path"

text \<open>
  \<open>sameFrame ctx ctx1\<close>: \<open>ctx1\<close> is \<open>ctx\<close> up to its query, as the loop over the fields
  leaves it.
\<close>

definition sameFrame :: "AutoCompleteContext \<Rightarrow> AutoCompleteContext \<Rightarrow> bool" where
  "sameFrame ctx ctx1 \<longleftrightarrow>
     visitedTypes ctx1 = visitedTypes ctx \<and> maxRecurLevel ctx1 = maxRecurLevel ctx \<and>
     completeLeaves ctx1 = completeLeaves ctx"

text \<open>Every trunk of the group is the name of the field, a slash and more.\<close>

definition startsWithField :: "Field \<Rightarrow> string list \<Rightarrow> bool" where
  "startsWithField field grp \<longleftrightarrow> (\<forall>t \<in> set grp. prefix (fieldName field @ ''/'') t)"

definition failureOf :: "failure + 'a \<Rightarrow> failure option" where
  "failureOf r = (case r of Inl f \<Rightarrow> Some f | Inr _ \<Rightarrow> None)"

text \<open>
  The path \<^verbatim>\<open>ListArguments\<close> hands to \<^verbatim>\<open>ParseQuery\<close>: the query string without its
  last element, the last remaining segment in the plural, then the argument name.
\<close>

definition listPath :: "Runtime \<Rightarrow> string list \<Rightarrow> string \<Rightarrow> string list" where
  "listPath rt queryStr argumentName =
     butlast (butlast queryStr) @ [Plural rt (last (butlast queryStr)), argumentName]"

subsection \<open>Fixtures\<close>

text \<open>
  Modelled from the spec: \<^verbatim>\<open>GetType\<close> fails when the name is absent, \<^verbatim>\<open>Resolve\<close>
  unwraps the List and NonNull modifiers down to the named type. Both are in
  \<^verbatim>\<open>schema.go\<close>; the fixtures use them over a list of named types.
\<close>

fun unwrap :: "TypeRef \<Rightarrow> string" where
  "unwrap (Named n) = n"
| "unwrap (ListOf r) = unwrap r"
| "unwrap (NonNullOf r) = unwrap r"

definition getTypeIn :: "(string \<times> Type) list \<Rightarrow> string \<Rightarrow> error + Type" where
  "getTypeIn types n = (case map_of types n of None \<Rightarrow> Inl (SchemaError n) | Some t \<Rightarrow> Inr t)"

definition resolveIn :: "(string \<times> Type) list \<Rightarrow> TypeRef \<Rightarrow> error + Type" where
  "resolveIn types r = getTypeIn types (unwrap r)"

definition schemaClient ::
  "(string \<times> Type) list \<Rightarrow> (string list \<Rightarrow> Type \<Rightarrow> error + Query) \<Rightarrow>
   (Query \<Rightarrow> error + Value) \<Rightarrow> Query CtrlClient" where
  "schemaClient types parse exec =
     \<lparr>QueryTypeName = ''Query'', MustGetType = getTypeIn types, resolve = resolveIn types,
      ParseQuery = parse, Reflect = Inr, ClientQuery = exec\<rparr>"

text \<open>
  A run time for the fixtures: plurals by a final s, camel case for the field names of
  the fixtures, and capacities that double.
\<close>

definition testRuntime :: Runtime where
  "testRuntime =
     \<lparr>Plural = (\<lambda>s. if s = ''pods'' then ''pods'' else s @ ''s''),
      ToCamel = (\<lambda>s. if s = ''namespace'' then ''Namespace'' else if s = ''pods'' then ''Pods''
                      else if s = ''name'' then ''Name'' else if s = ''ns'' then ''Ns''
                      else if s = ''ip'' then ''Ip'' else s),
      growslice = (\<lambda>cap. if cap = 0 then 1 else 2 * cap)\<rparr>"

definition scalarT :: "string \<Rightarrow> Type" where
  "scalarT n = \<lparr>typeName = n, typeKind = ScalarKind, typeFields = []\<rparr>"

definition listT :: "string \<Rightarrow> Type" where
  "listT n = \<lparr>typeName = n, typeKind = ListKind, typeFields = []\<rparr>"

definition objectT :: "string \<Rightarrow> Field list \<Rightarrow> Type" where
  "objectT n fs = \<lparr>typeName = n, typeKind = ObjectKind, typeFields = fs\<rparr>"

definition plainField :: "string \<Rightarrow> string \<Rightarrow> Field" where
  "plainField n t = \<lparr>fieldName = n, fieldType = Named t, fieldArgs = []\<rparr>"

text \<open>
  A mock service with the pods p1 and p2 under the namespace ns1. It parses the path
  namespace, ns1, pods and a field of a pod, and refuses every other path.
\<close>

definition podT :: Type where
  "podT = objectT ''Pod'' [plainField ''name'' ''String'', plainField ''ip'' ''String'']"

definition queryT :: Type where
  "queryT = objectT ''Query''
     [\<lparr>fieldName = ''namespace'', fieldType = ListOf (Named ''Namespace''),
       fieldArgs = [\<lparr>argName = ''ns'', argType = Named ''String''\<rparr>]\<rparr>]"

definition namespaceT :: Type where
  "namespaceT = objectT ''Namespace''
     [plainField ''ns'' ''String'',
      \<lparr>fieldName = ''pods'', fieldType = ListOf (Named ''Pod''),
       fieldArgs = [\<lparr>argName = ''name'', argType = Named ''String''\<rparr>]\<rparr>]"

definition podsTypes :: "(string \<times> Type) list" where
  "podsTypes =
     [(''Query'', queryT), (''Namespace'', namespaceT), (''Pod'', podT),
      (''String'', scalarT ''String'')]"

definition podsQuery :: "string \<Rightarrow> Query" where
  "podsQuery f = Query ''namespace'' (Some ''ns1'')
     [(''pods'', Query ''pods'' None [(f, Query f None [])])]"

definition podsParse :: "string list \<Rightarrow> Type \<Rightarrow> error + Query" where
  "podsParse path root =
     (if path = [''namespace'', ''ns1'', ''pods'', ''name''] then Inr (podsQuery ''name'')
      else if path = [''namespace'', ''ns1'', ''pods'', ''ip''] then Inr (podsQuery ''ip'')
      else Inl (SchemaError ''no such field''))"

definition podsResponse :: Value where
  "podsResponse = Ptr (Struct [(''Namespace'', Slice [Struct [(''Pods'',
      Slice [Struct [(''Name'', GString ''p1''), (''Ip'', GString ''10.0.0.1'')],
             Struct [(''Name'', GString ''p2''), (''Ip'', GString ''10.0.0.2'')]])]])])"

definition podsClient :: "Query CtrlClient" where
  "podsClient = schemaClient podsTypes podsParse (\<lambda>q. Inr podsResponse)"

text \<open>The same service when its transport refuses every request.\<close>

definition refusingClient :: "Query CtrlClient" where
  "refusingClient =
     schemaClient podsTypes podsParse (\<lambda>q. Inl (ExecutionError ''connection refused''))"

text \<open>A response with the namespaces ns-a, ns-b and other, and the query for their names.\<close>

definition nsQuery :: Query where
  "nsQuery = Query ''namespace'' None [(''ns'', Query ''ns'' None [])]"

definition nsResponse :: Value where
  "nsResponse = Ptr (Struct [(''Namespace'',
      Slice [Struct [(''Ns'', GString ''ns-a'')], Struct [(''Ns'', GString ''ns-b'')],
             Struct [(''Ns'', GString ''other'')]])])"

text \<open>An object with the leaf fields name and action, in this order.\<close>

definition chaosT :: Type where
  "chaosT = objectT ''PodChaos'' [plainField ''name'' ''String'', plainField ''action'' ''String'']"

text \<open>A schema eight objects deep below the namespace type.\<close>

definition deepRoot :: Type where
  "deepRoot = objectT ''Namespace'' [plainField ''a'' ''T1'']"

definition deepTypes :: "(string \<times> Type) list" where
  "deepTypes =
     [(''Namespace'', deepRoot),
      (''T1'', objectT ''T1'' [plainField ''b'' ''T2'']),
      (''T2'', objectT ''T2'' [plainField ''c'' ''T3'']),
      (''T3'', objectT ''T3'' [plainField ''d'' ''T4'']),
      (''T4'', objectT ''T4'' [plainField ''e'' ''T5'']),
      (''T5'', objectT ''T5'' [plainField ''f'' ''T6'']),
      (''T6'', objectT ''T6'' [plainField ''g'' ''T7'']),
      (''T7'', objectT ''T7'' [plainField ''h'' ''String'']),
      (''String'', scalarT ''String'')]"

definition deepClient :: "Query CtrlClient" where
  "deepClient = schemaClient deepTypes podsParse (\<lambda>q. Inr podsResponse)"

text \<open>A self-referential object type.\<close>

definition nodeT :: Type where
  "nodeT = objectT ''Node'' [plainField ''name'' ''String'', plainField ''next'' ''Node'']"

definition nodeClient :: "Query CtrlClient" where
  "nodeClient =
     schemaClient [(''Node'', nodeT), (''String'', scalarT ''String'')] podsParse
       (\<lambda>q. Inr podsResponse)"

text \<open>An object whose only field is an object: it has no leaf of its own.\<close>

definition topT :: Type where
  "topT = objectT ''Top'' [plainField ''id'' ''String'', plainField ''mid'' ''Mid'']"

definition midT :: Type where
  "midT = objectT ''Mid'' [plainField ''pod'' ''Pod'']"

definition midClient :: "Query CtrlClient" where
  "midClient =
     schemaClient [(''Top'', topT), (''Mid'', midT), (''Pod'', podT), (''String'', scalarT ''String'')]
       podsParse (\<lambda>q. Inr podsResponse)"

section \<open>The combination generator enumerates every ordered selection once\<close>

lemma fullPermutation_empty: "fullPermutation [] = Inl (Panicked SliceBoundsOutOfRange)"
  by (simp add: fullPermutation_def)

lemma distinct_concat_map:
  "distinct xs \<Longrightarrow> (\<And>x. x \<in> set xs \<Longrightarrow> distinct (f x)) \<Longrightarrow>
   (\<And>x y. x \<in> set xs \<Longrightarrow> y \<in> set xs \<Longrightarrow> x \<noteq> y \<Longrightarrow> set (f x) \<inter> set (f y) = {}) \<Longrightarrow>
   distinct (concat (map f xs))"
proof (induction xs)
  case Nil
  then show ?case by simp
next
  case (Cons a xs)
  have "distinct (concat (map f xs))"
    by (rule Cons.IH) (use Cons.prems in auto)
  moreover have "distinct (f a)" using Cons.prems by simp
  moreover have "set (f a) \<inter> set (f y) = {}" if "y \<in> set xs" for y
    using that Cons.prems(1) Cons.prems(3)[of a y] by auto
  ultimately show ?case by auto
qed

lemma combinations_of_sound:
  "ys \<in> set (combinations_of k xs) \<Longrightarrow> subseq ys xs \<and> length ys = k"
  by (induction k xs arbitrary: ys rule: combinations_of.induct) auto

lemma combinations_of_complete:
  "subseq ys xs \<Longrightarrow> length ys = k \<Longrightarrow> ys \<in> set (combinations_of k xs)"
proof (induction k xs arbitrary: ys rule: combinations_of.induct)
  case (1 xs)
  then show ?case by simp
next
  case (2 k)
  then show ?case by simp
next
  case (3 k x xs)
  from "3.prems" obtain y ys' where ys: "ys = y # ys'" by (cases ys) auto
  show ?case
  proof (cases "y = x")
    case True
    with 3 ys show ?thesis by auto
  next
    case False
    with 3 ys show ?thesis by (auto simp: subseq_Cons2_neq)
  qed
qed

lemma distinct_combinations_of: "distinct xs \<Longrightarrow> distinct (combinations_of k xs)"
proof (induction k xs rule: combinations_of.induct)
  case (3 k x xs)
  have "x \<notin> set ys" if "ys \<in> set (combinations_of (Suc k) xs)" for ys
    using that 3(3) combinations_of_sound[of ys "Suc k" xs] by (auto dest: list_emb_set)
  with 3 show ?case by (fastforce simp: distinct_map)
qed simp_all

lemma interleave_map: "interleave (f x) (map f ys) = map (map f) (interleave x ys)"
  by (induction ys) auto

lemma prmt_New_map: "prmt_New (map f xs) = map (map f) (prmt_New xs)"
  by (induction xs) (auto simp: map_concat interleave_map comp_def)

lemma mset_interleave: "ys \<in> set (interleave x zs) \<Longrightarrow> mset ys = add_mset x (mset zs)"
  by (induction zs arbitrary: ys) auto

lemma interleave_complete: "as @ x # bs \<in> set (interleave x (as @ bs))"
  by (induction as) (auto, (cases bs; simp))

lemma mset_prmt_New: "ys \<in> set (prmt_New xs) \<Longrightarrow> mset ys = mset xs"
  by (induction xs arbitrary: ys) (auto dest: mset_interleave)

lemma prmt_New_complete: "mset ys = mset xs \<Longrightarrow> ys \<in> set (prmt_New xs)"
proof (induction xs arbitrary: ys)
  case Nil
  then show ?case by simp
next
  case (Cons x xs)
  then have "x \<in> set ys" by (metis list.set_intros(1) mset_eq_setD)
  then obtain as bs where ys: "ys = as @ x # bs" by (auto dest: split_list)
  with Cons.prems have "mset (as @ bs) = mset xs" by simp
  then have "as @ bs \<in> set (prmt_New xs)" by (rule Cons.IH)
  with ys show ?case using interleave_complete[of as x bs] by auto
qed

lemma remove1_interleave: "x \<notin> set zs \<Longrightarrow> ys \<in> set (interleave x zs) \<Longrightarrow> remove1 x ys = zs"
  by (induction zs arbitrary: ys) auto

lemma distinct_interleave: "x \<notin> set zs \<Longrightarrow> distinct (interleave x zs)"
  by (induction zs) (auto simp: distinct_map)

lemma distinct_prmt_New: "distinct xs \<Longrightarrow> distinct (prmt_New xs)"
proof (induction xs)
  case Nil
  then show ?case by simp
next
  case (Cons x xs)
  have notin: "x \<notin> set zs" if "zs \<in> set (prmt_New xs)" for zs
    using that Cons.prems by (auto dest!: mset_prmt_New mset_eq_setD)
  show ?case
    unfolding prmt_New.simps
  proof (rule distinct_concat_map)
    show "distinct (prmt_New xs)" using Cons by simp
    show "distinct (interleave x zs)" if "zs \<in> set (prmt_New xs)" for zs
      using notin[OF that] by (rule distinct_interleave)
    show "set (interleave x zs) \<inter> set (interleave x zs') = {}"
      if "zs \<in> set (prmt_New xs)" "zs' \<in> set (prmt_New xs)" "zs \<noteq> zs'" for zs zs'
      using that remove1_interleave[OF notin] by blast
  qed
qed

lemma length_combinations_of: "length (combinations_of k xs) = length xs choose k"
  by (induction k xs rule: combinations_of.induct) auto

lemma length_interleave: "length (interleave x ys) = Suc (length ys)"
  by (induction ys) auto

lemma length_prmt_New: "length (prmt_New xs) = fact (length xs)"
proof (induction xs)
  case (Cons x xs)
  have "\<forall>zs \<in> set (prmt_New xs). length zs = length xs"
    by (auto dest: mset_prmt_New mset_eq_length)
  then have "map (\<lambda>zs. length (interleave x zs)) (prmt_New xs) = replicate (length (prmt_New xs)) (Suc (length xs))"
    by (auto simp: length_interleave map_replicate_const[symmetric] intro!: map_cong)
  then show ?case using Cons by (simp add: length_concat comp_def sum_list_replicate)
qed simp


lemma subseq_strict_sorted:
  "subseq ys xs \<Longrightarrow> sorted_wrt (<) xs \<Longrightarrow> sorted_wrt (<) (ys :: nat list)"
proof (induction rule: list_emb.induct)
  case (list_emb_Cons2 x y xs ys)
  then show ?case by (auto elim: list_emb_set)
qed auto

lemma comb_New_iff:
  "c \<in> set (comb_New n k) \<longleftrightarrow> sorted_wrt (<) c \<and> set c \<subseteq> {..<n} \<and> length c = k"
proof
  assume "c \<in> set (comb_New n k)"
  then have sub: "subseq c [0..<n]" and len: "length c = k"
    using combinations_of_sound[of c k "[0..<n]"] by (simp_all add: comb_New_def)
  from sub have "sorted_wrt (<) c" by (rule subseq_strict_sorted) simp
  moreover from sub have "set c \<subseteq> {..<n}" by (auto elim: list_emb_set)
  ultimately show "sorted_wrt (<) c \<and> set c \<subseteq> {..<n} \<and> length c = k" using len by simp
next
  assume c: "sorted_wrt (<) c \<and> set c \<subseteq> {..<n} \<and> length c = k"
  then have "subseq c [0..<n]"
    by (intro sorted_subset_imp_subseq) (auto simp: sorted_wrt_iff_nth_less)
  with c show "c \<in> set (comb_New n k)"
    by (simp add: comb_New_def combinations_of_complete)
qed

lemma distinct_comb_New: "distinct (comb_New n k)"
  by (simp add: comb_New_def distinct_combinations_of)

lemma length_comb_New: "length (comb_New n k) = n choose k"
  by (simp add: comb_New_def length_combinations_of)

lemma set_orderings:
  "set (orderings n k) = {js. distinct js \<and> set js \<subseteq> {..<n} \<and> length js = k}"
proof (intro set_eqI iffI)
  fix js assume "js \<in> set (orderings n k)"
  then obtain c where c: "c \<in> set (comb_New n k)" and js: "mset js = mset c"
    by (auto simp: orderings_def dest: mset_prmt_New)
  from c have "distinct c" "set c \<subseteq> {..<n}" "length c = k"
    by (simp_all add: comb_New_iff strict_sorted_iff)
  with js show "js \<in> {js. distinct js \<and> set js \<subseteq> {..<n} \<and> length js = k}"
    using mset_eq_imp_distinct_iff[OF js] mset_eq_setD[OF js] mset_eq_length[OF js] by simp
next
  fix js assume "js \<in> {js. distinct js \<and> set js \<subseteq> {..<n} \<and> length js = k}"
  then have "sort js \<in> set (comb_New n k)"
    by (simp add: comb_New_iff strict_sorted_iff)
  moreover have "js \<in> set (prmt_New (sort js))"
    by (rule prmt_New_complete) simp
  ultimately show "js \<in> set (orderings n k)"
    by (auto simp: orderings_def)
qed

lemma distinct_orderings: "distinct (orderings n k)"
  unfolding orderings_def
proof (rule distinct_concat_map)
  show "distinct (comb_New n k)" by (rule distinct_comb_New)
  show "distinct (prmt_New c)" if "c \<in> set (comb_New n k)" for c
    using that by (simp add: comb_New_iff strict_sorted_iff distinct_prmt_New)
  show "set (prmt_New c) \<inter> set (prmt_New c') = {}"
    if "c \<in> set (comb_New n k)" "c' \<in> set (comb_New n k)" "c \<noteq> c'" for c c'
  proof (rule ccontr)
    assume "set (prmt_New c) \<inter> set (prmt_New c') \<noteq> {}"
    then obtain js where "js \<in> set (prmt_New c)" "js \<in> set (prmt_New c')"
      by auto
    then have "mset js = mset c" "mset js = mset c'"
      by (auto dest: mset_prmt_New)
    then have "set c = set c'" by (metis mset_eq_setD)
    with that show False
      by (auto simp: comb_New_iff strict_sorted_iff dest: sorted_distinct_set_unique)
  qed
qed

lemma length_orderings: "length (orderings n k) = (n choose k) * fact k"
proof -
  have "map (\<lambda>c. length (prmt_New c)) (comb_New n k) = map (\<lambda>c. fact k) (comb_New n k)"
    by (rule map_cong) (auto simp: length_prmt_New comb_New_iff)
  then have "map (\<lambda>c. length (prmt_New c)) (comb_New n k) = replicate (n choose k) (fact k)"
    by (simp add: map_replicate_const length_comb_New)
  then show ?thesis
    by (simp add: orderings_def length_concat comp_def sum_list_replicate)
qed

lemma set_all_orderings:
  "set (all_orderings n) = {js. distinct js \<and> set js \<subseteq> {..<n} \<and> 1 \<le> length js \<and> length js < n}"
proof (intro set_eqI iffI)
  fix js assume "js \<in> set (all_orderings n)"
  then show "js \<in> {js. distinct js \<and> set js \<subseteq> {..<n} \<and> 1 \<le> length js \<and> length js < n}"
    by (auto simp: all_orderings_def set_orderings)
next
  fix js assume js: "js \<in> {js. distinct js \<and> set js \<subseteq> {..<n} \<and> 1 \<le> length js \<and> length js < n}"
  then have "length js - 1 \<in> set [0..<n - 1]" "js \<in> set (orderings n (length js - 1 + 1))"
    by (auto simp: set_orderings)
  then show "js \<in> set (all_orderings n)"
    unfolding all_orderings_def set_concat set_map by blast
qed

lemma distinct_all_orderings: "distinct (all_orderings n)"
  unfolding all_orderings_def
  by (rule distinct_concat_map) (auto simp: distinct_orderings set_orderings)

lemma length_all_orderings:
  "length (all_orderings n) = (\<Sum>k = 1..<n. (n choose k) * fact k)"
proof -
  have "length (all_orderings n) = (\<Sum>i\<leftarrow>[0..<n - 1]. (n choose (i + 1)) * fact (i + 1))"
    by (simp add: all_orderings_def length_concat comp_def length_orderings)
  also have "... = (\<Sum>i = 0..<n - 1. (n choose (i + 1)) * fact (i + 1))"
    by (simp add: interv_sum_list_conv_sum_set_nat)
  also have "... = (\<Sum>k = 1..<n. (n choose k) * fact k)"
    by (rule sum.reindex_bij_witness[of _ "\<lambda>k. k - 1" "\<lambda>i. i + 1"]) auto
  finally show ?thesis .
qed

lemma fullPermutation_orderings:
  "strs \<noteq> [] \<Longrightarrow>
   fullPermutation strs = Inr (map (map ((!) strs)) (all_orderings (length strs)))"
  by (simp add: fullPermutation_def all_orderings_def orderings_def map_concat comp_def
      prmt_New_map Let_def)

lemma fullPermutation_abc:
  "fullPermutation [''a'', ''b'', ''c''] =
     Inr [[''a''], [''b''], [''c''], [''a'', ''b''], [''b'', ''a''],
          [''a'', ''c''], [''c'', ''a''], [''b'', ''c''], [''c'', ''b'']]"
  by (simp add: fullPermutation_def comb_New_def upt_conv_Cons)

text \<open>
  Claim C3. For a non-empty input of \<open>N\<close> names \<open>fullPermutation\<close> returns, each exactly
  once, the names at every sequence of distinct indexes below \<open>N\<close> whose length \<open>k\<close> is at
  least 1 and less than \<open>N\<close>: every ordering of every combination of size \<open>k\<close>,
  \<open>C(N,k) * k!\<close> results for each size, none of size 0 or \<open>N\<close>. For the names a, b, c
  these are the three results of size 1 and the six of size 2.
\<close>

theorem fullPermutation_enumerates:
  "(strs \<noteq> [] \<longrightarrow>
     (\<exists>rs. fullPermutation strs = Inr rs \<and>
        mset rs = image_mset (map ((!) strs))
          (mset_set {js. distinct js \<and> set js \<subseteq> {..<length strs} \<and>
                        1 \<le> length js \<and> length js < length strs}) \<and>
        length rs = (\<Sum>k = 1..<length strs. (length strs choose k) * fact k))) \<and>
   (\<exists>rs. fullPermutation [''a'', ''b'', ''c''] = Inr rs \<and>
      mset rs = {#[''a''], [''b''], [''c''], [''a'', ''b''], [''b'', ''a''],
                 [''a'', ''c''], [''c'', ''a''], [''b'', ''c''], [''c'', ''b'']#})"
proof (intro conjI impI)
  assume "strs \<noteq> []"
  then show "\<exists>rs. fullPermutation strs = Inr rs \<and>
        mset rs = image_mset (map ((!) strs))
          (mset_set {js. distinct js \<and> set js \<subseteq> {..<length strs} \<and>
                        1 \<le> length js \<and> length js < length strs}) \<and>
        length rs = (\<Sum>k = 1..<length strs. (length strs choose k) * fact k)"
    using mset_set_set[OF distinct_all_orderings, of "length strs"]
    by (simp add: fullPermutation_orderings set_all_orderings length_all_orderings)
next
  show "\<exists>rs. fullPermutation [''a'', ''b'', ''c''] = Inr rs \<and>
      mset rs = {#[''a''], [''b''], [''c''], [''a'', ''b''], [''b'', ''a''],
                 [''a'', ''c''], [''c'', ''a''], [''b'', ''c''], [''c'', ''b'']#}"
    by (simp add: fullPermutation_abc)
qed

theorem fullPermutation_enumerates_witness:
  "[''a'', ''b''] \<noteq> [] \<and>
   (\<exists>rs. fullPermutation [''a'', ''b''] = Inr rs \<and>
      mset rs = image_mset (map ((!) [''a'', ''b'']))
        (mset_set {js. distinct js \<and> set js \<subseteq> {..<2} \<and> 1 \<le> length js \<and> length js < 2}) \<and>
      length rs = 2)"
  using fullPermutation_enumerates [of "[''a'', ''b'']"] by (simp add: numeral_2_eq_2)

section \<open>Evaluating the fixtures\<close>

lemmas fixture_defs =
  testRuntime_def schemaClient_def getTypeIn_def resolveIn_def scalarT_def listT_def objectT_def
  plainField_def podT_def queryT_def namespaceT_def podsTypes_def podsQuery_def podsParse_def podsResponse_def podsClient_def
  refusingClient_def nsQuery_def nsResponse_def chaosT_def deepRoot_def deepTypes_def deepClient_def
  nodeT_def nodeClient_def topT_def midT_def midClient_def

lemmas model_defs =
  ListArguments_def GetQueryType_def literal_def reslice_def backing_def append_slice_def Let_def
  firstField_def scalarArguments_def scalarValue_def listFieldArguments_def
  completeQueryBody_def IsComplete_def Visited_def Next_def NewAutoCompleteContext_def
  CompleteQuery_def NamespaceKey_def NamespaceType_def fullPermutation_def comb_New_def

text \<open>Fuel written as a numeral.\<close>

lemma completeQuery_numeral [simp]:
  "completeQuery (numeral k) rt c ctx root =
     completeQueryBody (completeQuery (pred_numeral k) rt c) rt c ctx root"
  by (simp add: numeral_eq_Suc)

lemma completeQuery_1 [simp]:
  "completeQuery 1 rt c ctx root = completeQueryBody (completeQuery 0 rt c) rt c ctx root"
  unfolding One_nat_def by simp

section \<open>The response walker\<close>

lemma appendArguments_filter:
  assumes "appendArguments (map f vs) acc = Inr arguments"
    and "\<And>v ys. v \<in> set vs \<Longrightarrow> f v = Inr ys \<Longrightarrow> ys = filter P (g v)"
  shows "arguments = acc @ filter P (concat (map g vs))"
  using assms
proof (induction vs arbitrary: acc)
  case Nil
  then show ?case by simp
next
  case (Cons v vs)
  from Cons.prems(1) obtain ys where ys: "f v = Inr ys"
    by (cases "f v") auto
  with Cons.prems(1) have "appendArguments (map f vs) (acc @ ys) = Inr arguments" by simp
  then have "arguments = (acc @ ys) @ filter P (concat (map g vs))"
    by (rule Cons.IH) (use Cons.prems(2) in auto)
  moreover have "ys = filter P (g v)" using Cons.prems(2)[of v ys] ys by simp
  ultimately show ?case by simp
qed

lemma listArguments_filter_leafValues:
  "listArguments rt object resource startWith = Inr arguments \<Longrightarrow>
   arguments = filter (prefix startWith) (leafValues rt object resource)"
proof (induction rt object resource startWith arbitrary: arguments rule: listArguments.induct)
  case (4 rt fs resource startWith)
  then show ?case by (auto split: option.splits)
next
  case (5 rt vs resource startWith)
  have "arguments = [] @ filter (prefix startWith) (concat (map (\<lambda>v. leafValues rt v resource) vs))"
  proof (rule appendArguments_filter)
    show "appendArguments (map (\<lambda>v. listArguments rt v resource startWith) vs) [] = Inr arguments"
      using "5.prems" by simp
    show "ys = filter (prefix startWith) (leafValues rt v resource)"
      if "v \<in> set vs" "listArguments rt v resource startWith = Inr ys" for v ys
      using "5.IH"[OF that] .
  qed
  then show ?case by simp
qed (auto simp: scalarArguments_def scalarValue_def split: if_splits sum.splits)

text \<open>Whether the walk fails, and with what, does not depend on the prefix.\<close>

lemma failureOf_appendArguments:
  assumes "\<And>v. v \<in> set vs \<Longrightarrow> failureOf (f v) = failureOf (g v)"
  shows "failureOf (appendArguments (map f vs) acc) = failureOf (appendArguments (map g vs) acc')"
  using assms
proof (induction vs arbitrary: acc acc')
  case Nil
  then show ?case by (simp add: failureOf_def)
next
  case (Cons v vs)
  have v: "failureOf (f v) = failureOf (g v)" using Cons.prems by simp
  show ?case
  proof (cases "f v")
    case (Inl e)
    with v have "g v = Inl e" by (cases "g v") (simp_all add: failureOf_def)
    with Inl show ?thesis by simp
  next
    case (Inr ys)
    with v obtain zs where "g v = Inr zs" by (cases "g v") (simp_all add: failureOf_def)
    with Inr show ?thesis using Cons.IH[of "acc @ ys" "acc' @ zs"] Cons.prems by simp
  qed
qed

lemma failureOf_listArguments:
  "failureOf (listArguments rt object resource startWith) =
   failureOf (listArguments rt object resource startWith')"
proof (induction rt object resource startWith rule: listArguments.induct)
  case (4 rt fs resource startWith)
  then show ?case by (simp split: option.splits)
next
  case (5 rt vs resource startWith)
  then show ?case by (simp add: failureOf_appendArguments)
qed (simp_all add: scalarArguments_def failureOf_def split: sum.splits)

lemma listArguments_failure_any_prefix:
  "listArguments rt object resource startWith = Inl f \<Longrightarrow>
   listArguments rt object resource startWith' = Inl f"
  using failureOf_listArguments[of rt object resource startWith startWith']
  by (cases "listArguments rt object resource startWith'") (simp_all add: failureOf_def)

lemma listArguments_nsResponse: "listArguments testRuntime nsResponse (Some nsQuery) ''ns-'' = Inr [''ns-a'', ''ns-b'']"
  by (simp add: fixture_defs model_defs)

text \<open>
  Claim C7. Whenever \<^verbatim>\<open>listArguments\<close> returns, it returns what the specification
  describes for \<^verbatim>\<open>ExtractLeafValues\<close>: the string forms of the scalar leaves found by
  walking the response along the query, through pointers and every element of a slice,
  in source order, each kept if and only if it starts with the prefix. On the response
  with the namespaces ns-a, ns-b and other and the prefix ns- it returns exactly ns-a
  and ns-b.
\<close>

theorem listArguments_ExtractLeafValues:
  "(listArguments rt response resource startWith = Inr arguments \<longrightarrow>
      arguments = ExtractLeafValues_spec rt response resource startWith) \<and>
   listArguments testRuntime nsResponse (Some nsQuery) ''ns-'' = Inr [''ns-a'', ''ns-b'']"
  using listArguments_filter_leafValues[of rt response resource startWith arguments] listArguments_nsResponse
  by (simp add: ExtractLeafValues_spec_def)

theorem listArguments_ExtractLeafValues_witness:
  "listArguments testRuntime nsResponse (Some nsQuery) ''ns-'' = Inr [''ns-a'', ''ns-b''] \<and>
   ExtractLeafValues_spec testRuntime nsResponse (Some nsQuery) ''ns-'' = [''ns-a'', ''ns-b'']"
  using listArguments_ExtractLeafValues[where rt = testRuntime and response = nsResponse
      and resource = "Some nsQuery" and startWith = "''ns-''" and arguments = "[''ns-a'', ''ns-b'']"]
  by simp

section \<open>The argument lister\<close>

text \<open>
  With at least two elements in \<^verbatim>\<open>queryStr\<close> and a query type, \<^verbatim>\<open>ListArguments\<close> is
  the chain of its four steps on the path \<open>listPath\<close>. The prefix that reaches the walker
  is the argument name: \<^verbatim>\<open>append\<close> has written it over the last element of
  \<^verbatim>\<open>queryStr\<close> before that element is read.
\<close>

lemma ListArguments_unfold:
  assumes len: "2 \<le> length (elts queryStr)" and qt: "GetQueryType c = Inr queryType"
  shows "ListArguments rt c queryStr argumentName =
    (let path = listPath rt (elts queryStr) argumentName; array = path @ spare queryStr
     in case ParseQuery c path queryType of
          Inl err \<Rightarrow> (Inl (Failed err), array)
        | Inr q \<Rightarrow>
            (case Reflect c (Query ''query'' None [(''namespace'', q)]) of
               Inl err \<Rightarrow> (Inl (Failed err), array)
             | Inr queryStruct \<Rightarrow>
                 (case ClientQuery c queryStruct of
                    Inl err \<Rightarrow> (Inl (Failed err), array)
                  | Inr queryValue \<Rightarrow>
                      (listArguments rt queryValue (Some q) argumentName, array))))"
proof -
  define xs where "xs = elts queryStr"
  define n where "n = length xs"
  define ys where "ys = butlast (butlast xs)"
  define y where "y = last (butlast xs)"
  define z where "z = last xs"
  from len have ne: "xs \<noteq> []" "butlast xs \<noteq> []"
    by (auto simp: xs_def[symmetric] dest!: arg_cong[where f = length])
  have "xs = butlast xs @ [z]" using ne(1) by (simp add: z_def)
  also have "butlast xs = ys @ [y]" using ne(2) by (simp add: ys_def y_def)
  finally have xs: "xs = ys @ [y, z]" by simp
  have n: "n = length ys + 2" by (simp add: n_def xs)
  have path: "listPath rt xs argumentName = ys @ [Plural rt y, argumentName]"
    by (simp add: listPath_def xs butlast_append)
  have l0: "reslice (Suc (length ys)) (xs @ spare queryStr) =
      \<lparr>elts = ys @ [y], spare = z # spare queryStr\<rparr>"
    by (simp add: reslice_def xs)
  show ?thesis
    using qt
    by (simp add: ListArguments_def Let_def xs_def[symmetric] n_def[symmetric] l0 path
        append_slice_def backing_def n nth_append cong: sum.case_cong)
qed

lemma ListArguments_pods_without_prefix: "ListArguments testRuntime podsClient (literal [''namespace'', ''ns1'', ''pods'']) ''name'' =
  (Inl (Failed (SchemaError ''no such field'')), [''namespace'', ''ns1s'', ''name''])"
  by (simp add: fixture_defs model_defs)

lemma ListArguments_pods_empty_prefix: "ListArguments testRuntime podsClient (literal [''namespace'', ''ns1'', ''pods'', '''']) ''name'' =
  (Inr [], [''namespace'', ''ns1'', ''pods'', ''name''])"
  by (simp add: fixture_defs model_defs)

lemma ListArguments_refused: "fst (ListArguments testRuntime refusingClient (literal [''namespace'', ''ns1'', ''pods'', '''']) ''name'') =
  Inl (Failed (ExecutionError ''connection refused''))"
  "fst (ListArguments testRuntime refusingClient (literal [''namespace'', ''ns1'', ''pods'', '''']) ''ip'') =
  Inl (Failed (ExecutionError ''connection refused''))"
  by (simp_all add: fixture_defs model_defs)

lemma leafValues_podsResponse: "leafValues testRuntime podsResponse (Some (podsQuery ''name'')) = [''p1'', ''p2'']"
  by (simp add: fixture_defs model_defs)

lemma listArguments_podsResponse_empty_prefix:
  "listArguments testRuntime podsResponse (Some (podsQuery ''name'')) '''' = Inr [''p1'', ''p2'']"
  by (simp add: fixture_defs model_defs)

lemma listArguments_podsResponse_name_prefix:
  "listArguments testRuntime podsResponse (Some (podsQuery ''name'')) ''name'' = Inr []"
  by (simp add: fixture_defs model_defs)

lemma ListArguments_pods_other_prefix:
  "ListArguments testRuntime podsClient (literal [''namespace'', ''ns1'', ''pods'', ''p'']) ''name'' =
     (Inr [], [''namespace'', ''ns1'', ''pods'', ''name''])"
  by (simp add: fixture_defs model_defs)

text \<open>
  Claim C1. By the comment above the function the query string carries the prefix as
  its last element, so the call of the claim is the query string namespace, ns1, pods
  and the empty prefix, with the argument name name. There the code does not return
  what the claim says. It drops the last element, puts pods in the plural, appends the
  argument name, parses and executes the query namespace, ns1, pods, name, and the
  service answers with p1 and p2. But the prefix that reaches the walker is read from
  the cell of \<^verbatim>\<open>queryStr\<close> that \<^verbatim>\<open>append\<close> has overwritten: it is the argument name,
  whatever the last element was. The call returns no value, where the walker with the
  empty prefix returns p1 and p2; with the prefix p in the last element the outcome is
  the same.
\<close>

theorem ListArguments_prefix_overwritten:
  "(2 \<le> length (elts queryStr) \<and> GetQueryType c = Inr queryType \<and>
    ParseQuery c (listPath rt (elts queryStr) argumentName) queryType = Inr q \<and>
    Reflect c (Query ''query'' None [(''namespace'', q)]) = Inr queryStruct \<and>
    ClientQuery c queryStruct = Inr queryValue \<longrightarrow>
      ListArguments rt c queryStr argumentName =
        (listArguments rt queryValue (Some q) argumentName,
         listPath rt (elts queryStr) argumentName @ spare queryStr)) \<and>
   listPath testRuntime [''namespace'', ''ns1'', ''pods'', ''''] ''name'' =
     [''namespace'', ''ns1'', ''pods'', ''name''] \<and>
   ListArguments testRuntime podsClient (literal [''namespace'', ''ns1'', ''pods'', '''']) ''name'' =
     (Inr [], [''namespace'', ''ns1'', ''pods'', ''name'']) \<and>
   ListArguments testRuntime podsClient (literal [''namespace'', ''ns1'', ''pods'', ''p'']) ''name'' =
     (Inr [], [''namespace'', ''ns1'', ''pods'', ''name'']) \<and>
   listArguments testRuntime podsResponse (Some (podsQuery ''name'')) '''' = Inr [''p1'', ''p2''] \<and>
   listArguments testRuntime podsResponse (Some (podsQuery ''name'')) ''name'' = Inr []"
proof (intro conjI impI)
  assume "2 \<le> length (elts queryStr) \<and> GetQueryType c = Inr queryType \<and>
    ParseQuery c (listPath rt (elts queryStr) argumentName) queryType = Inr q \<and>
    Reflect c (Query ''query'' None [(''namespace'', q)]) = Inr queryStruct \<and>
    ClientQuery c queryStruct = Inr queryValue"
  then show "ListArguments rt c queryStr argumentName =
        (listArguments rt queryValue (Some q) argumentName,
         listPath rt (elts queryStr) argumentName @ spare queryStr)"
    by (simp add: ListArguments_unfold Let_def)
next
  show "listPath testRuntime [''namespace'', ''ns1'', ''pods'', ''''] ''name'' =
     [''namespace'', ''ns1'', ''pods'', ''name'']"
    by (simp add: listPath_def testRuntime_def)
qed (rule ListArguments_pods_empty_prefix ListArguments_pods_other_prefix
    listArguments_podsResponse_empty_prefix listArguments_podsResponse_name_prefix)+

theorem ListArguments_prefix_overwritten_witness:
  "2 \<le> length (elts (literal [''namespace'', ''ns1'', ''pods'', ''''])) \<and>
   GetQueryType podsClient = Inr queryT \<and>
   ParseQuery podsClient
     (listPath testRuntime (elts (literal [''namespace'', ''ns1'', ''pods'', ''''])) ''name'') queryT =
     Inr (podsQuery ''name'') \<and>
   Reflect podsClient (Query ''query'' None [(''namespace'', podsQuery ''name'')]) =
     Inr (Query ''query'' None [(''namespace'', podsQuery ''name'')]) \<and>
   ClientQuery podsClient (Query ''query'' None [(''namespace'', podsQuery ''name'')]) =
     Inr podsResponse \<and>
   ListArguments testRuntime podsClient (literal [''namespace'', ''ns1'', ''pods'', '''']) ''name'' =
     (listArguments testRuntime podsResponse (Some (podsQuery ''name'')) ''name'',
      listPath testRuntime (elts (literal [''namespace'', ''ns1'', ''pods'', ''''])) ''name'' @
        spare (literal [''namespace'', ''ns1'', ''pods'', '''']))"
proof -
  have a: "2 \<le> length (elts (literal [''namespace'', ''ns1'', ''pods'', '''']))"
    by (simp add: literal_def)
  have b: "GetQueryType podsClient = Inr queryT"
    by (simp add: GetQueryType_def podsClient_def schemaClient_def getTypeIn_def podsTypes_def)
  have c: "ParseQuery podsClient
     (listPath testRuntime (elts (literal [''namespace'', ''ns1'', ''pods'', ''''])) ''name'') queryT =
     Inr (podsQuery ''name'')"
    by (simp add: podsClient_def schemaClient_def podsParse_def listPath_def literal_def testRuntime_def)
  have d: "Reflect podsClient (Query ''query'' None [(''namespace'', podsQuery ''name'')]) =
     Inr (Query ''query'' None [(''namespace'', podsQuery ''name'')])"
    by (simp add: podsClient_def schemaClient_def)
  have e: "ClientQuery podsClient (Query ''query'' None [(''namespace'', podsQuery ''name'')]) =
     Inr podsResponse"
    by (simp add: podsClient_def schemaClient_def)
  from a b c d e
    ListArguments_prefix_overwritten[where queryStr = "literal [''namespace'', ''ns1'', ''pods'', '''']"
      and c = podsClient and queryType = queryT and rt = testRuntime and argumentName = "''name''"
      and q = "podsQuery ''name''"
      and queryStruct = "Query ''query'' None [(''namespace'', podsQuery ''name'')]"
      and queryValue = podsResponse]
  show ?thesis by blast
qed

text \<open>
  Claim C4 as stated fails on the code. When the transport refuses the request, the
  error returned for the field name and the error returned for the field ip on the same
  path are both the error of the transport itself: neither carries the path or the
  field name.
\<close>

theorem ListArguments_error_counterexample:
  "fst (ListArguments testRuntime refusingClient (literal [''namespace'', ''ns1'', ''pods'', '''']) ''name'') =
     Inl (Failed (ExecutionError ''connection refused'')) \<and>
   fst (ListArguments testRuntime refusingClient (literal [''namespace'', ''ns1'', ''pods'', '''']) ''ip'') =
     Inl (Failed (ExecutionError ''connection refused'')) \<and>
   ClientQuery refusingClient (Query ''query'' None [(''namespace'', podsQuery ''name'')]) =
     Inl (ExecutionError ''connection refused'')"
  by (simp add: ListArguments_refused) (simp add: refusingClient_def schemaClient_def)

text \<open>
  Claim C4, amended. A failure of the query type lookup, of parsing, of building the
  request shape, of execution or of the leaf-value extraction ends the call of
  \<^verbatim>\<open>ListArguments\<close>: the call returns that failure, and returns it unchanged, with no
  path or field name attached.
\<close>

theorem ListArguments_failures:
  "(GetQueryType c = Inl err \<longrightarrow>
      fst (ListArguments rt c queryStr argumentName) = Inl (Failed err)) \<and>
   (2 \<le> length (elts queryStr) \<and> GetQueryType c = Inr queryType \<longrightarrow>
     (ParseQuery c (listPath rt (elts queryStr) argumentName) queryType = Inl err \<longrightarrow>
        fst (ListArguments rt c queryStr argumentName) = Inl (Failed err)) \<and>
     (ParseQuery c (listPath rt (elts queryStr) argumentName) queryType = Inr q \<longrightarrow>
        (Reflect c (Query ''query'' None [(''namespace'', q)]) = Inl err \<longrightarrow>
           fst (ListArguments rt c queryStr argumentName) = Inl (Failed err)) \<and>
        (Reflect c (Query ''query'' None [(''namespace'', q)]) = Inr queryStruct \<longrightarrow>
           (ClientQuery c queryStruct = Inl err \<longrightarrow>
              fst (ListArguments rt c queryStr argumentName) = Inl (Failed err)) \<and>
           (ClientQuery c queryStruct = Inr queryValue \<and>
            listArguments rt queryValue (Some q) startWith = Inl failure \<longrightarrow>
              fst (ListArguments rt c queryStr argumentName) = Inl failure))))"
proof (intro conjI impI)
  assume "GetQueryType c = Inl err"
  then show "fst (ListArguments rt c queryStr argumentName) = Inl (Failed err)"
    by (simp add: ListArguments_def)
next
  assume "2 \<le> length (elts queryStr) \<and> GetQueryType c = Inr queryType"
    and "ParseQuery c (listPath rt (elts queryStr) argumentName) queryType = Inl err"
  then show "fst (ListArguments rt c queryStr argumentName) = Inl (Failed err)"
    by (simp add: ListArguments_unfold Let_def)
next
  assume "2 \<le> length (elts queryStr) \<and> GetQueryType c = Inr queryType"
    and "ParseQuery c (listPath rt (elts queryStr) argumentName) queryType = Inr q"
    and "Reflect c (Query ''query'' None [(''namespace'', q)]) = Inl err"
  then show "fst (ListArguments rt c queryStr argumentName) = Inl (Failed err)"
    by (simp add: ListArguments_unfold Let_def)
next
  assume "2 \<le> length (elts queryStr) \<and> GetQueryType c = Inr queryType"
    and "ParseQuery c (listPath rt (elts queryStr) argumentName) queryType = Inr q"
    and "Reflect c (Query ''query'' None [(''namespace'', q)]) = Inr queryStruct"
    and "ClientQuery c queryStruct = Inl err"
  then show "fst (ListArguments rt c queryStr argumentName) = Inl (Failed err)"
    by (simp add: ListArguments_unfold Let_def)
next
  assume "2 \<le> length (elts queryStr) \<and> GetQueryType c = Inr queryType"
    and "ParseQuery c (listPath rt (elts queryStr) argumentName) queryType = Inr q"
    and "Reflect c (Query ''query'' None [(''namespace'', q)]) = Inr queryStruct"
    and "ClientQuery c queryStruct = Inr queryValue \<and>
            listArguments rt queryValue (Some q) startWith = Inl failure"
  moreover from this have "listArguments rt queryValue (Some q) argumentName = Inl failure"
    by (auto dest: listArguments_failure_any_prefix)
  ultimately show "fst (ListArguments rt c queryStr argumentName) = Inl failure"
    by (simp add: ListArguments_unfold Let_def)
qed

theorem ListArguments_failures_witness:
  "2 \<le> length (elts (literal [''namespace'', ''ns1'', ''pods'', ''''])) \<and>
   GetQueryType refusingClient = Inr queryT \<and>
   ParseQuery refusingClient
     (listPath testRuntime (elts (literal [''namespace'', ''ns1'', ''pods'', ''''])) ''name'') queryT =
     Inr (podsQuery ''name'') \<and>
   Reflect refusingClient (Query ''query'' None [(''namespace'', podsQuery ''name'')]) =
     Inr (Query ''query'' None [(''namespace'', podsQuery ''name'')]) \<and>
   ClientQuery refusingClient (Query ''query'' None [(''namespace'', podsQuery ''name'')]) =
     Inl (ExecutionError ''connection refused'') \<and>
   fst (ListArguments testRuntime refusingClient (literal [''namespace'', ''ns1'', ''pods'', ''''])
     ''name'') = Inl (Failed (ExecutionError ''connection refused''))"
proof -
  have a: "2 \<le> length (elts (literal [''namespace'', ''ns1'', ''pods'', '''']))"
    by (simp add: literal_def)
  have b: "GetQueryType refusingClient = Inr queryT"
    by (simp add: GetQueryType_def refusingClient_def schemaClient_def getTypeIn_def podsTypes_def)
  have c: "ParseQuery refusingClient
     (listPath testRuntime (elts (literal [''namespace'', ''ns1'', ''pods'', ''''])) ''name'') queryT =
     Inr (podsQuery ''name'')"
    by (simp add: refusingClient_def schemaClient_def podsParse_def listPath_def literal_def
        testRuntime_def)
  have d: "Reflect refusingClient (Query ''query'' None [(''namespace'', podsQuery ''name'')]) =
     Inr (Query ''query'' None [(''namespace'', podsQuery ''name'')])"
    by (simp add: refusingClient_def schemaClient_def)
  have e: "ClientQuery refusingClient (Query ''query'' None [(''namespace'', podsQuery ''name'')]) =
     Inl (ExecutionError ''connection refused'')"
    by (simp add: refusingClient_def schemaClient_def)
  from a b c d e
    ListArguments_failures[where queryStr = "literal [''namespace'', ''ns1'', ''pods'', '''']"
      and c = refusingClient and queryType = queryT and rt = testRuntime
      and argumentName = "''name''" and q = "podsQuery ''name''"
      and queryStruct = "Query ''query'' None [(''namespace'', podsQuery ''name'')]"
      and err = "ExecutionError ''connection refused''"]
  show ?thesis by blast
qed

section \<open>The recursion of completeQuery\<close>

text \<open>The body calls its recursion only on contexts that descend from its own.\<close>

lemma descending_apply:
  "descends ctx ctx' subType \<Longrightarrow> descending ctx rec ctx' subType = rec ctx' subType"
  by (simp add: descending_def)

lemma descends_Next:
  "sameFrame ctx ctx1 \<Longrightarrow> typeName subType \<notin> visitedTypes ctx \<Longrightarrow>
   descends ctx (Next rt ctx1 (typeName subType) fieldname arg) subType"
  by (simp add: descends_def sameFrame_def Next_def Let_def)

lemma sameFrame_query [simp]: "sameFrame ctx (ctx1\<lparr>query := q\<rparr>) = sameFrame ctx ctx1"
  by (simp add: sameFrame_def)

lemma sameFrame_listFieldArguments:
  "listFieldArguments rt c ctx1 fieldname argumentName = (res, ctx2) \<Longrightarrow>
   sameFrame ctx ctx2 = sameFrame ctx ctx1"
  by (auto simp: listFieldArguments_def Let_def split: if_splits)

lemma argsLoop_descending:
  "sameFrame ctx ctx1 \<Longrightarrow> typeName subType \<notin> visitedTypes ctx \<Longrightarrow>
   argsLoop (descending ctx rec) rt ctx1 field subType args trunks =
   argsLoop rec rt ctx1 field subType args trunks"
  by (induction args arbitrary: trunks)
    (simp_all add: descending_apply descends_Next cong: option.case_cong sum.case_cong)

lemma fieldsLoop_descending:
  "sameFrame ctx ctx1 \<Longrightarrow>
   fieldsLoop (descending ctx rec) rt c fs ctx1 trunks leaves =
   fieldsLoop rec rt c fs ctx1 trunks leaves"
proof (induction fs arbitrary: ctx1 trunks leaves)
  case Nil
  then show ?case by simp
next
  case (Cons field rest)
  note frame = Cons.prems
  show ?case
  proof (cases "resolve c (fieldType field)")
    case (Inl err)
    then show ?thesis by simp
  next
    case (Inr subType)
    show ?thesis
    proof (cases "Visited ctx1 (typeName subType)")
      case True
      with Inr show ?thesis by (simp add: Cons.IH[OF frame])
    next
      case False
      then have fresh: "typeName subType \<notin> visitedTypes ctx"
        using frame by (simp add: Visited_def sameFrame_def)
      show ?thesis
      proof (cases "fieldArgs field")
        case Nil
        with Inr False show ?thesis
          by (simp add: descending_apply descends_Next[OF frame fresh] Cons.IH[OF frame]
              cong: option.case_cong sum.case_cong if_cong)
      next
        case (Cons arg0 more)
        obtain res ctx2 where listed:
          "listFieldArguments rt c ctx1 (fieldName field) (argName arg0) = (res, ctx2)"
          by fastforce
        have frame2: "sameFrame ctx ctx2"
          using sameFrame_listFieldArguments[OF listed] frame by simp
        note IH = \<open>\<And>ctx1 trunks leaves. sameFrame ctx ctx1 \<Longrightarrow>
          fieldsLoop (descending ctx rec) rt c rest ctx1 trunks leaves =
          fieldsLoop rec rt c rest ctx1 trunks leaves\<close>
        from Inr False Cons listed show ?thesis
          by (simp add: argsLoop_descending[OF frame2 fresh] IH[OF frame2]
              cong: option.case_cong sum.case_cong)
      qed
    qed
  qed
qed

lemma completeQueryBody_descending:
  "completeQueryBody (descending ctx rec) rt c ctx root = completeQueryBody rec rt c ctx root"
  by (simp add: completeQueryBody_def fieldsLoop_descending sameFrame_def
      cong: Kind.case_cong if_cong)

text \<open>If every descending call returns, so do the loops and the body.\<close>

lemma argsLoop_returns:
  assumes rec: "\<And>ctx' sub. descends ctx ctx' sub \<Longrightarrow> rec ctx' sub \<noteq> None"
    and frame: "sameFrame ctx ctx1" and fresh: "typeName subType \<notin> visitedTypes ctx"
  shows "argsLoop rec rt ctx1 field subType args trunks \<noteq> None"
proof (induction args arbitrary: trunks)
  case Nil
  then show ?case by simp
next
  case (Cons arg args)
  from rec[OF descends_Next[OF frame fresh]]
  obtain r where "rec (Next rt ctx1 (typeName subType) (fieldName field) arg) subType = Some r"
    by blast
  with Cons show ?case by (cases r) (simp_all del: not_None_eq)
qed

lemma fieldsLoop_returns:
  assumes rec: "\<And>ctx' sub. descends ctx ctx' sub \<Longrightarrow> rec ctx' sub \<noteq> None"
  shows "sameFrame ctx ctx1 \<Longrightarrow> fieldsLoop rec rt c fs ctx1 trunks leaves \<noteq> None"
proof (induction fs arbitrary: ctx1 trunks leaves)
  case Nil
  then show ?case by simp
next
  case (Cons field rest)
  note frame = Cons.prems
  show ?case
  proof (cases "resolve c (fieldType field)")
    case (Inl err)
    then show ?thesis by simp
  next
    case (Inr subType)
    show ?thesis
    proof (cases "Visited ctx1 (typeName subType)")
      case True
      with Inr show ?thesis by (simp add: Cons.IH[OF frame] del: not_None_eq)
    next
      case False
      then have fresh: "typeName subType \<notin> visitedTypes ctx"
        using frame by (simp add: Visited_def sameFrame_def)
      show ?thesis
      proof (cases "fieldArgs field")
        case Nil
        from rec[OF descends_Next[OF frame fresh]]
        obtain r where "rec (Next rt ctx1 (typeName subType) (fieldName field) '''') subType = Some r"
          by blast
        with Inr False Nil show ?thesis
          by (cases r) (simp_all add: Cons.IH[OF frame] del: not_None_eq)
      next
        case (Cons arg0 more)
        obtain listed ctx2 where listed:
          "listFieldArguments rt c ctx1 (fieldName field) (argName arg0) = (listed, ctx2)"
          by fastforce
        have frame2: "sameFrame ctx ctx2"
          using sameFrame_listFieldArguments[OF listed] frame by simp
        have step: "fieldsLoop rec rt c (field # rest) ctx1 trunks leaves =
          (case listed of
             Inl err \<Rightarrow> Some (Inl err)
           | Inr args \<Rightarrow>
              (case argsLoop rec rt ctx2 field subType args trunks of
                 None \<Rightarrow> None
               | Some (Inl err) \<Rightarrow> Some (Inl err)
               | Some (Inr trunks') \<Rightarrow> fieldsLoop rec rt c rest ctx2 trunks' leaves))"
          using Inr False Cons listed by (simp split: sum.splits)
        note IH = \<open>\<And>ctx1 trunks leaves. sameFrame ctx ctx1 \<Longrightarrow>
          fieldsLoop rec rt c rest ctx1 trunks leaves \<noteq> None\<close>
        show ?thesis
        proof (cases listed)
          case (Inl err)
          with step show ?thesis by simp
        next
          case (Inr args)
          have "argsLoop rec rt ctx2 field subType args trunks \<noteq> None"
            by (rule argsLoop_returns[where ctx = ctx]) (fact rec frame2 fresh)+
          then obtain r where "argsLoop rec rt ctx2 field subType args trunks = Some r" by blast
          with step Inr show ?thesis
            by (cases r) (simp_all add: IH[OF frame2] del: not_None_eq)
        qed
      qed
    qed
  qed
qed

lemma completeQueryBody_returns:
  assumes "\<And>ctx' sub. descends ctx ctx' sub \<Longrightarrow> rec ctx' sub \<noteq> None"
  shows "completeQueryBody rec rt c ctx root \<noteq> None"
proof -
  have "sameFrame ctx ctx" by (simp add: sameFrame_def)
  have "fieldsLoop rec rt c (typeFields root) ctx [] [] \<noteq> None"
    by (rule fieldsLoop_returns[where ctx = ctx]) (fact assms \<open>sameFrame ctx ctx\<close>)+
  then obtain r where "fieldsLoop rec rt c (typeFields root) ctx [] [] = Some r" by blast
  then show ?thesis
    by (cases r) (auto simp: completeQueryBody_def split: Kind.splits sum.splits prod.splits)
qed

lemma completeQuery_returns:
  "unat (maxRecurLevel ctx) < fuel \<Longrightarrow> completeQuery fuel rt c ctx root \<noteq> None"
proof (induction fuel arbitrary: ctx root)
  case 0
  then show ?case by simp
next
  case (Suc fuel)
  show ?case
  proof (cases "IsComplete ctx")
    case True
    then show ?thesis by (simp add: completeQueryBody_def)
  next
    case False
    have "completeQuery fuel rt c ctx' sub \<noteq> None" if "descends ctx ctx' sub" for ctx' sub
    proof (rule Suc.IH)
      from False have "maxRecurLevel ctx \<noteq> 0" by (simp add: IsComplete_def)
      then have "unat (maxRecurLevel ctx - 1) = unat (maxRecurLevel ctx) - 1"
        by (rule unat_minus_one)
      moreover have "0 < unat (maxRecurLevel ctx)"
        using \<open>maxRecurLevel ctx \<noteq> 0\<close> by (simp add: unat_gt_0)
      ultimately show "unat (maxRecurLevel ctx') < fuel"
        using that Suc.prems by (simp add: descends_def)
    qed
    then show ?thesis by (simp add: completeQueryBody_returns del: not_None_eq)
  qed
qed

text \<open>The loops append to \<^verbatim>\<open>leaves\<close> and \<^verbatim>\<open>trunks\<close> field by field.\<close>

lemma argsLoop_trunks:
  "argsLoop rec rt ctx field subType args trunks = Some (Inr trunks') \<Longrightarrow>
   \<exists>grp. trunks' = trunks @ grp \<and> startsWithField field grp"
proof (induction args arbitrary: trunks)
  case Nil
  then show ?case by (simp add: startsWithField_def)
next
  case (Cons arg args)
  from Cons.prems obtain subQueries where
    sub: "rec (Next rt ctx (typeName subType) (fieldName field) arg) subType = Some (Inr subQueries)"
    and rest: "argsLoop rec rt ctx field subType args
      (trunks @ map (\<lambda>subQuery. Join [fieldName field, arg, subQuery] ''/'') subQueries) = Some (Inr trunks')"
    by (auto split: option.splits sum.splits)
  from Cons.IH[OF rest] obtain grp where
    "trunks' = (trunks @ map (\<lambda>subQuery. Join [fieldName field, arg, subQuery] ''/'') subQueries) @ grp"
    "startsWithField field grp" by blast
  then have "trunks' = trunks @ (map (\<lambda>subQuery. Join [fieldName field, arg, subQuery] ''/'') subQueries @ grp)
     \<and> startsWithField field (map (\<lambda>subQuery. Join [fieldName field, arg, subQuery] ''/'') subQueries @ grp)"
    by (auto simp: startsWithField_def)
  then show ?case by blast
qed

lemma fieldsLoop_order:
  "fieldsLoop rec rt c fs ctx trunks leaves = Some (Inr (trunks', leaves')) \<Longrightarrow>
   \<exists>names groups. leaves' = leaves @ names \<and> subseq names (map fieldName fs) \<and>
      trunks' = trunks @ concat groups \<and> list_all2 startsWithField fs groups"
proof (induction fs arbitrary: ctx trunks leaves)
  case Nil
  then show ?case by simp
next
  case (Cons field rest)
  have extend: "\<exists>names groups. leaves' = leaves @ names \<and> subseq names (map fieldName (field # rest)) \<and>
      trunks' = trunks @ concat groups \<and> list_all2 startsWithField (field # rest) groups"
    if run: "fieldsLoop rec rt c rest ctx2 (trunks @ grp) (leaves @ name) = Some (Inr (trunks', leaves'))"
      and grp: "startsWithField field grp" and name: "name = [] \<or> name = [fieldName field]"
    for ctx2 grp name
  proof -
    from Cons.IH[OF run] obtain names groups where
      *: "leaves' = (leaves @ name) @ names" "subseq names (map fieldName rest)"
         "trunks' = (trunks @ grp) @ concat groups" "list_all2 startsWithField rest groups"
      by blast
    have "subseq (name @ names) (map fieldName (field # rest))"
      using name *(2) by auto
    moreover have "list_all2 startsWithField (field # rest) (grp # groups)"
      using grp *(4) by simp
    ultimately show ?thesis using *(1,3)
      by (intro exI[of _ "name @ names"] exI[of _ "grp # groups"]) simp
  qed
  have none: "startsWithField field []" by (simp add: startsWithField_def)
  from Cons.prems obtain subType where res: "resolve c (fieldType field) = Inr subType"
    by (auto split: sum.splits)
  show ?case
  proof (cases "Visited ctx (typeName subType)")
    case True
    with Cons.prems res have "fieldsLoop rec rt c rest ctx (trunks @ []) (leaves @ []) = Some (Inr (trunks', leaves'))"
      by simp
    then show ?thesis by (rule extend) (simp_all add: none)
  next
    case False
    show ?thesis
    proof (cases "fieldArgs field")
      case Nil
      with Cons.prems res False obtain subQueries where
        sub: "rec (Next rt ctx (typeName subType) (fieldName field) '''') subType = Some (Inr subQueries)"
        by (auto split: option.splits sum.splits)
      show ?thesis
      proof (cases "subQueries = []")
        case True
        with Cons.prems res False Nil sub
        have "fieldsLoop rec rt c rest ctx (trunks @ []) (leaves @ [fieldName field]) = Some (Inr (trunks', leaves'))"
          by simp
        then show ?thesis by (rule extend) (simp_all add: none)
      next
        case nonempty: False
        with Cons.prems res False Nil sub
        have "fieldsLoop rec rt c rest ctx
            (trunks @ map (\<lambda>subQuery. Join [fieldName field, subQuery] ''/'') subQueries) (leaves @ [])
          = Some (Inr (trunks', leaves'))"
          by simp
        then show ?thesis by (rule extend) (simp_all add: startsWithField_def)
      qed
    next
      case (Cons arg0 more)
      obtain listed ctx2 where listed:
        "listFieldArguments rt c ctx (fieldName field) (argName arg0) = (listed, ctx2)"
        by fastforce
      with Cons.prems res False Cons obtain args trunks2 where
        args: "argsLoop rec rt ctx2 field subType args trunks = Some (Inr trunks2)"
        and run: "fieldsLoop rec rt c rest ctx2 trunks2 leaves = Some (Inr (trunks', leaves'))"
        by (auto split: option.splits sum.splits)
      from argsLoop_trunks[OF args] obtain grp where
        "trunks2 = trunks @ grp" "startsWithField field grp" by blast
      with run have "fieldsLoop rec rt c rest ctx2 (trunks @ grp) (leaves @ []) = Some (Inr (trunks', leaves'))"
        by simp
      then show ?thesis by (rule extend) (simp_all add: \<open>startsWithField field grp\<close>)
    qed
  qed
qed

lemma pathFrom_distinct:
  "pathFrom ctx path \<Longrightarrow>
   distinct (entered path) \<and> set (entered path) \<inter> visitedTypes ctx = {} \<and>
   visitedTypes (lastContext ctx path) = visitedTypes ctx \<union> set (entered path)"
proof (induction path arbitrary: ctx)
  case Nil
  then show ?case by (simp add: entered_def)
next
  case (Cons step path)
  obtain ctx' subType where step: "step = (ctx', subType)" by (cases step)
  with Cons.prems have d: "descends ctx ctx' subType" and p: "pathFrom ctx' path" by simp_all
  from Cons.IH[OF p] d show ?case
    by (auto simp: step entered_def descends_def)
qed

lemma fieldsLoop_failure_of_call:
  "resolve c (fieldType field) = Inr subType \<Longrightarrow> \<not> Visited ctx (typeName subType) \<Longrightarrow>
   fieldArgs field = [] \<Longrightarrow>
   rec (Next rt ctx (typeName subType) (fieldName field) '''') subType = Some (Inl failure) \<Longrightarrow>
   fieldsLoop rec rt c (field # rest) ctx trunks leaves = Some (Inl failure)"
  by simp

lemma completeQuery_chaosT: "completeQuery 2 testRuntime podsClient (NewAutoCompleteContext ''ns1'' 6 False) chaosT =
  Some (Inr [''name'', ''action''])"
  by (simp add: fixture_defs model_defs)

lemma CompleteQuery_deep: "CompleteQuery 7 testRuntime deepClient ''ns1'' False = Some (Inr [''a/b/c/d/e/f''])"
  by (simp add: fixture_defs model_defs)

lemma completeQuery_deep_budget_8: "completeQuery 9 testRuntime deepClient (NewAutoCompleteContext ''ns1'' 8 False) deepRoot
   = Some (Inr [''a/b/c/d/e/f/g/h''])"
  by (simp add: fixture_defs model_defs)

lemma completeQuery_nodeT: "completeQuery 7 testRuntime nodeClient (NewAutoCompleteContext ''ns1'' 6 False) nodeT
   = Some (Inr [''name'', ''next/name''])"
  by (simp add: fixture_defs model_defs)

lemma completeQuery_topT: "completeQuery 7 testRuntime midClient (NewAutoCompleteContext ''ns1'' 6 True) topT
   = Some (Inl (Panicked SliceBoundsOutOfRange))"
  by (simp add: fixture_defs model_defs upt_conv_Cons)

lemma fieldsLoop_midT: "fieldsLoop (completeQuery 5 testRuntime midClient) testRuntime midClient (typeFields midT)
     (Next testRuntime (NewAutoCompleteContext ''ns1'' 6 True) ''Mid'' ''mid'' '''') [] [] =
     Some (Inr ([''pod/name'', ''pod/ip''], []))"
  by (simp add: fixture_defs model_defs completeQuery_numeral upt_conv_Cons)

text \<open>
  Claim C8. With a remaining budget other than 0 (so in particular greater than 0),
  \<^verbatim>\<open>completeQuery\<close> returns the empty result on a type of kind Scalar or Enum, and
  fails with the error that the type is not supported (the specification's
  UnsupportedTypeError) on a type of kind List or NonNull. One level of calls is enough.
\<close>

theorem completeQuery_kind_switch:
  "maxRecurLevel ctx \<noteq> 0 \<Longrightarrow>
   (typeKind root = ScalarKind \<or> typeKind root = EnumKind \<longrightarrow>
      completeQuery (Suc fuel) rt c ctx root = Some (Inr [])) \<and>
   (typeKind root = ListKind \<or> typeKind root = NonNullKind \<longrightarrow>
      completeQuery (Suc fuel) rt c ctx root = Some (Inl (Failed (TypeNotSupported root))))"
  by (auto simp: completeQueryBody_def IsComplete_def)

theorem completeQuery_kind_switch_witness:
  "maxRecurLevel (NewAutoCompleteContext ''ns1'' 6 False) \<noteq> 0 \<and>
   typeKind (scalarT ''String'') = ScalarKind \<and>
   completeQuery (Suc 0) testRuntime podsClient (NewAutoCompleteContext ''ns1'' 6 False)
     (scalarT ''String'') = Some (Inr []) \<and>
   typeKind (listT ''Pods'') = ListKind \<and>
   completeQuery (Suc 0) testRuntime podsClient (NewAutoCompleteContext ''ns1'' 6 False)
     (listT ''Pods'') = Some (Inl (Failed (TypeNotSupported (listT ''Pods''))))"
proof -
  have budget: "maxRecurLevel (NewAutoCompleteContext ''ns1'' 6 False) \<noteq> 0"
    by (simp add: NewAutoCompleteContext_def)
  have kinds: "typeKind (scalarT ''String'') = ScalarKind" "typeKind (listT ''Pods'') = ListKind"
    by (simp_all add: scalarT_def listT_def)
  from budget kinds
    completeQuery_kind_switch[OF budget, where root = "scalarT ''String''" and fuel = 0
      and rt = testRuntime and c = podsClient]
    completeQuery_kind_switch[OF budget, where root = "listT ''Pods''" and fuel = 0
      and rt = testRuntime and c = podsClient]
  show ?thesis by blast
qed

text \<open>
  Claim C5. \<^verbatim>\<open>CompleteQuery\<close> runs \<^verbatim>\<open>completeQuery\<close> on the namespace type with a
  root context whose budget is 6; \<^verbatim>\<open>completeQuery\<close> on a context whose budget is 0
  returns the empty result, not an error. On the schema eight objects deep the
  completion stops after six segments and is returned as a result; with a budget of 8
  the same schema completes to all eight segments.
\<close>

theorem CompleteQuery_budget:
  "(MustGetType c NamespaceType = Inr namespaceType \<longrightarrow>
      CompleteQuery fuel rt c namespace leaves =
        completeQuery fuel rt c (NewAutoCompleteContext namespace 6 leaves) namespaceType) \<and>
   maxRecurLevel (NewAutoCompleteContext namespace 6 leaves) = 6 \<and>
   (maxRecurLevel ctx = 0 \<longrightarrow> completeQuery (Suc fuel') rt c ctx root = Some (Inr [])) \<and>
   CompleteQuery 7 testRuntime deepClient ''ns1'' False = Some (Inr [''a/b/c/d/e/f'']) \<and>
   completeQuery 9 testRuntime deepClient (NewAutoCompleteContext ''ns1'' 8 False) deepRoot =
     Some (Inr [''a/b/c/d/e/f/g/h''])"
proof (intro conjI impI)
  assume "MustGetType c NamespaceType = Inr namespaceType"
  then show "CompleteQuery fuel rt c namespace leaves =
        completeQuery fuel rt c (NewAutoCompleteContext namespace 6 leaves) namespaceType"
    by (simp add: CompleteQuery_def)
next
  show "maxRecurLevel (NewAutoCompleteContext namespace 6 leaves) = 6"
    by (simp add: NewAutoCompleteContext_def)
next
  assume "maxRecurLevel ctx = 0"
  then show "completeQuery (Suc fuel') rt c ctx root = Some (Inr [])"
    by (simp add: completeQueryBody_def IsComplete_def)
next
  show "CompleteQuery 7 testRuntime deepClient ''ns1'' False = Some (Inr [''a/b/c/d/e/f''])"
    by (rule CompleteQuery_deep)
next
  show "completeQuery 9 testRuntime deepClient (NewAutoCompleteContext ''ns1'' 8 False) deepRoot =
     Some (Inr [''a/b/c/d/e/f/g/h''])"
    by (rule completeQuery_deep_budget_8)
qed

theorem CompleteQuery_budget_witness:
  "MustGetType deepClient NamespaceType = Inr deepRoot \<and>
   CompleteQuery 7 testRuntime deepClient ''ns1'' False =
     completeQuery 7 testRuntime deepClient (NewAutoCompleteContext ''ns1'' 6 False) deepRoot \<and>
   maxRecurLevel (NewAutoCompleteContext ''ns1'' 0 False) = 0 \<and>
   completeQuery (Suc 0) testRuntime deepClient (NewAutoCompleteContext ''ns1'' 0 False) deepRoot =
     Some (Inr [])"
proof -
  have a: "MustGetType deepClient NamespaceType = Inr deepRoot"
    by (simp add: fixture_defs NamespaceType_def)
  have b: "maxRecurLevel (NewAutoCompleteContext ''ns1'' 0 False) = 0"
    by (simp add: NewAutoCompleteContext_def)
  from a b CompleteQuery_budget[where c = deepClient and namespaceType = deepRoot and fuel = 7
      and rt = testRuntime and namespace = "''ns1''" and leaves = False
      and ctx = "NewAutoCompleteContext ''ns1'' 0 False" and fuel' = 0 and root = deepRoot]
  show ?thesis by blast
qed

text \<open>
  Claim C9. For every schema, client and context, \<^verbatim>\<open>completeQuery\<close> returns as soon as
  the fuel exceeds the budget read as an unsigned number (the budget itself when it is
  not negative): the calls nest at most budget levels below the first one. The budget
  of the next context is the budget minus 1, and a context with budget 0 returns without
  calling the recursion. Calls to the schema and to the service are taken to return.
\<close>

theorem completeQuery_terminates:
  "(unat (maxRecurLevel ctx) < fuel \<longrightarrow> (\<exists>result. completeQuery fuel rt c ctx root = Some result)) \<and>
   maxRecurLevel (Next rt ctx typename fieldname arg) = maxRecurLevel ctx - 1 \<and>
   (maxRecurLevel ctx = 0 \<longrightarrow> completeQueryBody rec rt c ctx root = Some (Inr []))"
  using completeQuery_returns[of ctx fuel rt c root]
  by (auto simp: Next_def Let_def completeQueryBody_def IsComplete_def)

theorem completeQuery_terminates_witness:
  "unat (maxRecurLevel (NewAutoCompleteContext ''ns1'' 6 False)) < 7 \<and>
   (\<exists>result. completeQuery 7 testRuntime nodeClient (NewAutoCompleteContext ''ns1'' 6 False) nodeT =
      Some result) \<and>
   maxRecurLevel (NewAutoCompleteContext ''ns1'' 0 False) = 0 \<and>
   completeQueryBody (completeQuery 0 testRuntime nodeClient) testRuntime nodeClient
     (NewAutoCompleteContext ''ns1'' 0 False) nodeT = Some (Inr [])"
proof -
  have a: "unat (maxRecurLevel (NewAutoCompleteContext ''ns1'' 6 False)) < 7"
    by (simp add: NewAutoCompleteContext_def)
  have b: "maxRecurLevel (NewAutoCompleteContext ''ns1'' 0 False) = 0"
    by (simp add: NewAutoCompleteContext_def)
  from a b
    completeQuery_terminates[where ctx = "NewAutoCompleteContext ''ns1'' 6 False" and fuel = 7
      and rt = testRuntime and c = nodeClient and root = nodeT]
    completeQuery_terminates[where ctx = "NewAutoCompleteContext ''ns1'' 0 False"
      and rec = "completeQuery 0 testRuntime nodeClient"
      and rt = testRuntime and c = nodeClient and root = nodeT]
  show ?thesis by blast
qed

text \<open>
  Claim C2. The next context has the visited set of its parent plus the type name it
  enters, and the parent's set is a value that no call changes. A field whose resolved
  type name is in the visited set of the context is skipped. The body of
  \<^verbatim>\<open>completeQuery\<close> calls the recursion only on contexts that descend from its own:
  the name entered was not in the visited set, and the new set is the old one plus that
  name. So along any path of nested calls the type names entered are pairwise distinct,
  none was visited before the path, and the visited set at its end is the starting set
  plus exactly these names.
\<close>

theorem visited_types_per_path:
  "visitedTypes (Next rt ctx typename fieldname arg) = insert typename (visitedTypes ctx) \<and>
   (resolve c (fieldType field) = Inr subType \<and> typeName subType \<in> visitedTypes ctx \<longrightarrow>
      fieldsLoop rec rt c (field # rest) ctx trunks leaves =
      fieldsLoop rec rt c rest ctx trunks leaves) \<and>
   completeQueryBody (descending ctx rec) rt c ctx root = completeQueryBody rec rt c ctx root \<and>
   (pathFrom ctx path \<longrightarrow>
      distinct (entered path) \<and> set (entered path) \<inter> visitedTypes ctx = {} \<and>
      visitedTypes (lastContext ctx path) = visitedTypes ctx \<union> set (entered path))"
  using pathFrom_distinct[of ctx path]
  by (simp add: Next_def Let_def Visited_def completeQueryBody_descending)

theorem visited_types_per_path_witness:
  "resolve nodeClient (fieldType (plainField ''next'' ''Node'')) = Inr nodeT \<and>
   typeName nodeT \<in> visitedTypes (Next testRuntime (NewAutoCompleteContext ''ns1'' 6 False) ''Node'' ''next'' '''') \<and>
   fieldsLoop (completeQuery 0 testRuntime nodeClient) testRuntime nodeClient
     [plainField ''next'' ''Node'']
     (Next testRuntime (NewAutoCompleteContext ''ns1'' 6 False) ''Node'' ''next'' '''') [] [''name''] =
     Some (Inr ([], [''name''])) \<and>
   pathFrom (NewAutoCompleteContext ''ns1'' 6 False)
     [(Next testRuntime (NewAutoCompleteContext ''ns1'' 6 False) ''Node'' ''next'' '''', nodeT)] \<and>
   distinct (entered
     [(Next testRuntime (NewAutoCompleteContext ''ns1'' 6 False) ''Node'' ''next'' '''', nodeT)]) \<and>
   visitedTypes (lastContext (NewAutoCompleteContext ''ns1'' 6 False)
     [(Next testRuntime (NewAutoCompleteContext ''ns1'' 6 False) ''Node'' ''next'' '''', nodeT)]) =
     {''Node''}"
proof -
  let ?ctx = "NewAutoCompleteContext ''ns1'' 6 False"
  let ?ctx' = "Next testRuntime ?ctx ''Node'' ''next'' ''''"
  have a: "resolve nodeClient (fieldType (plainField ''next'' ''Node'')) = Inr nodeT"
    by (simp add: fixture_defs)
  have b: "typeName nodeT \<in> visitedTypes ?ctx'"
    by (simp add: fixture_defs Next_def Let_def)
  have p: "pathFrom ?ctx [(?ctx', nodeT)]"
    by (simp add: descends_def fixture_defs Next_def Let_def NewAutoCompleteContext_def)
  have v: "visitedTypes ?ctx = {}" by (simp add: NewAutoCompleteContext_def)
  have e: "entered [(?ctx', nodeT)] = [''Node'']" by (simp add: entered_def fixture_defs)
  from a b
    visited_types_per_path[where c = nodeClient and field = "plainField ''next'' ''Node''"
      and subType = nodeT and ctx = ?ctx' and rec = "completeQuery 0 testRuntime nodeClient"
      and rt = testRuntime and rest = "[]" and trunks = "[]" and leaves = "[''name'']"]
  have skip: "fieldsLoop (completeQuery 0 testRuntime nodeClient) testRuntime nodeClient
     [plainField ''next'' ''Node''] ?ctx' [] [''name''] = Some (Inr ([], [''name'']))"
    by simp
  from p visited_types_per_path[where ctx = ?ctx and path = "[(?ctx', nodeT)]"]
  have "distinct (entered [(?ctx', nodeT)])"
    "visitedTypes (lastContext ?ctx [(?ctx', nodeT)]) = visitedTypes ?ctx \<union> set (entered [(?ctx', nodeT)])"
    by blast+
  with a b skip p v e show ?thesis by simp
qed

text \<open>
  Claim C6. A result of \<^verbatim>\<open>completeQuery\<close> on an object type with budget left is made
  of the leaves first and the trunks after them. The leaves are names of fields in
  declaration order, passed through as they are, or through \<open>fullPermutation\<close> and joined
  by commas when \<^verbatim>\<open>completeLeaves\<close> is set. The trunks come field by field in
  declaration order, each starting with the name of its field and a slash. (Without
  budget, and on the other kinds, a result is empty.) The object with the leaf fields
  name and action yields exactly name, action.
\<close>

theorem completeQuery_order:
  "(completeQuery fuel rt c ctx root = Some (Inr queries) \<and> \<not> IsComplete ctx \<and>
    typeKind root = ObjectKind \<longrightarrow>
     (\<exists>leaves trunks groups.
        (if completeLeaves ctx
         then \<exists>leafPrmts. fullPermutation leaves = Inr leafPrmts \<and>
                queries = map (\<lambda>leafPrmt. Join leafPrmt '','') leafPrmts @ trunks
         else queries = leaves @ trunks) \<and>
        subseq leaves (map fieldName (typeFields root)) \<and>
        trunks = concat groups \<and> list_all2 startsWithField (typeFields root) groups)) \<and>
   completeQuery 2 testRuntime podsClient (NewAutoCompleteContext ''ns1'' 6 False) chaosT =
     Some (Inr [''name'', ''action''])"
proof (intro conjI impI)
  assume asm: "completeQuery fuel rt c ctx root = Some (Inr queries) \<and> \<not> IsComplete ctx \<and>
    typeKind root = ObjectKind"
  then obtain n where fuel: "fuel = Suc n" by (cases fuel) auto
  define rec where "rec = completeQuery n rt c"
  from asm fuel have body: "completeQueryBody rec rt c ctx root = Some (Inr queries)"
    by (simp add: rec_def)
  with asm obtain trunks leaves where
    loop: "fieldsLoop rec rt c (typeFields root) ctx [] [] = Some (Inr (trunks, leaves))"
    by (auto simp: completeQueryBody_def split: option.splits sum.splits)
  from fieldsLoop_order[OF loop] obtain groups where
    order: "subseq leaves (map fieldName (typeFields root))" "trunks = concat groups"
      "list_all2 startsWithField (typeFields root) groups"
    by auto
  have "if completeLeaves ctx
         then \<exists>leafPrmts. fullPermutation leaves = Inr leafPrmts \<and>
                queries = map (\<lambda>leafPrmt. Join leafPrmt '','') leafPrmts @ trunks
         else queries = leaves @ trunks"
    using body asm loop by (auto simp: completeQueryBody_def split: sum.splits)
  with order show "\<exists>leaves trunks groups.
        (if completeLeaves ctx
         then \<exists>leafPrmts. fullPermutation leaves = Inr leafPrmts \<and>
                queries = map (\<lambda>leafPrmt. Join leafPrmt '','') leafPrmts @ trunks
         else queries = leaves @ trunks) \<and>
        subseq leaves (map fieldName (typeFields root)) \<and>
        trunks = concat groups \<and> list_all2 startsWithField (typeFields root) groups"
    by blast
next
  show "completeQuery 2 testRuntime podsClient (NewAutoCompleteContext ''ns1'' 6 False) chaosT =
     Some (Inr [''name'', ''action''])"
    by (rule completeQuery_chaosT)
qed

theorem completeQuery_order_witness:
  "completeQuery 7 testRuntime nodeClient (NewAutoCompleteContext ''ns1'' 6 False) nodeT =
     Some (Inr [''name'', ''next/name'']) \<and>
   \<not> IsComplete (NewAutoCompleteContext ''ns1'' 6 False) \<and>
   typeKind nodeT = ObjectKind \<and>
   (\<exists>leaves trunks groups.
      [''name'', ''next/name''] = leaves @ trunks \<and>
      subseq leaves [''name'', ''next''] \<and>
      trunks = concat groups \<and> list_all2 startsWithField (typeFields nodeT) groups)"
proof -
  have a: "\<not> IsComplete (NewAutoCompleteContext ''ns1'' 6 False)"
    by (simp add: IsComplete_def NewAutoCompleteContext_def)
  have b: "typeKind nodeT = ObjectKind" by (simp add: fixture_defs)
  have c: "completeLeaves (NewAutoCompleteContext ''ns1'' 6 False) = False"
    by (simp add: NewAutoCompleteContext_def)
  have d: "map fieldName (typeFields nodeT) = [''name'', ''next'']" by (simp add: fixture_defs)
  from completeQuery_nodeT a b
    completeQuery_order[where fuel = 7 and rt = testRuntime and c = nodeClient
      and ctx = "NewAutoCompleteContext ''ns1'' 6 False" and root = nodeT
      and queries = "[''name'', ''next/name'']"]
  have "\<exists>leaves trunks groups.
      [''name'', ''next/name''] = leaves @ trunks \<and>
      subseq leaves [''name'', ''next''] \<and>
      trunks = concat groups \<and> list_all2 startsWithField (typeFields nodeT) groups"
    unfolding c d by simp
  with completeQuery_nodeT a b show ?thesis by blast
qed

text \<open>
  Claim C10. \<open>fullPermutation\<close> on the empty sequence does not return: it panics on the
  slice expression. So with \<^verbatim>\<open>completeLeaves\<close> set, \<^verbatim>\<open>completeQuery\<close> on an object
  type with budget left panics whenever the loop over its fields ends without an error
  and without a leaf; and a panic of a nested call is the outcome of the loops and of
  the body that made the call, so that a level without leaves anywhere below crashes the
  whole completion, as it does three levels deep in the fixture.
\<close>

theorem completeQuery_panics_without_leaves:
  "fullPermutation [] = Inl (Panicked SliceBoundsOutOfRange) \<and>
   (completeLeaves ctx \<and> \<not> IsComplete ctx \<and> typeKind root = ObjectKind \<and>
    fieldsLoop (completeQuery fuel rt c) rt c (typeFields root) ctx [] [] = Some (Inr (trunks, [])) \<longrightarrow>
      completeQuery (Suc fuel) rt c ctx root = Some (Inl (Panicked SliceBoundsOutOfRange))) \<and>
   (resolve c (fieldType field) = Inr subType \<and> \<not> Visited ctx (typeName subType) \<and>
    fieldArgs field = [] \<and>
    rec (Next rt ctx (typeName subType) (fieldName field) '''') subType = Some (Inl (Panicked p)) \<longrightarrow>
      fieldsLoop rec rt c (field # rest) ctx trunks' leaves = Some (Inl (Panicked p))) \<and>
   (rec (Next rt ctx (typeName subType) (fieldName field) arg) subType = Some (Inl (Panicked p)) \<longrightarrow>
      argsLoop rec rt ctx field subType (arg # args) trunks' = Some (Inl (Panicked p))) \<and>
   (\<not> IsComplete ctx \<and> typeKind root = ObjectKind \<and>
    fieldsLoop rec rt c (typeFields root) ctx [] [] = Some (Inl (Panicked p)) \<longrightarrow>
      completeQueryBody rec rt c ctx root = Some (Inl (Panicked p))) \<and>
   completeQuery 7 testRuntime midClient (NewAutoCompleteContext ''ns1'' 6 True) topT =
     Some (Inl (Panicked SliceBoundsOutOfRange))"
  using completeQuery_topT by (auto simp: fullPermutation_empty completeQueryBody_def fieldsLoop_failure_of_call)

theorem completeQuery_panics_without_leaves_witness:
  "completeLeaves (Next testRuntime (NewAutoCompleteContext ''ns1'' 6 True) ''Mid'' ''mid'' '''') \<and>
   \<not> IsComplete (Next testRuntime (NewAutoCompleteContext ''ns1'' 6 True) ''Mid'' ''mid'' '''') \<and>
   typeKind midT = ObjectKind \<and>
   fieldsLoop (completeQuery 5 testRuntime midClient) testRuntime midClient (typeFields midT)
     (Next testRuntime (NewAutoCompleteContext ''ns1'' 6 True) ''Mid'' ''mid'' '''') [] [] =
     Some (Inr ([''pod/name'', ''pod/ip''], [])) \<and>
   completeQuery 6 testRuntime midClient
     (Next testRuntime (NewAutoCompleteContext ''ns1'' 6 True) ''Mid'' ''mid'' '''') midT =
     Some (Inl (Panicked SliceBoundsOutOfRange))"
proof -
  let ?ctx = "Next testRuntime (NewAutoCompleteContext ''ns1'' 6 True) ''Mid'' ''mid'' ''''"
  have a: "completeLeaves ?ctx" "\<not> IsComplete ?ctx"
    by (simp_all add: Next_def Let_def NewAutoCompleteContext_def IsComplete_def)
  have b: "typeKind midT = ObjectKind" by (simp add: fixture_defs)
  have six: "(6::nat) = Suc 5" by simp
  from a b fieldsLoop_midT
    completeQuery_panics_without_leaves[where ctx = ?ctx and root = midT and fuel = 5
      and rt = testRuntime and c = midClient and trunks = "[''pod/name'', ''pod/ip'']"]
  have "completeQuery (Suc 5) testRuntime midClient ?ctx midT =
     Some (Inl (Panicked SliceBoundsOutOfRange))"
    by blast
  with a b fieldsLoop_midT show ?thesis unfolding six by blast
qed

end
